theory Spec2Isabelle
  imports Complex_Main
begin

section \<open>Values of the host language\<close>

text \<open>
  The scraper is JavaScript. Its strings are sequences of UTF-16 code units; the model
  uses \<^typ>\<open>string\<close> and so covers the code units U+0000 to U+00FF (Latin-1), one
  \<^typ>\<open>char\<close> per code unit, so that \<open>length\<close> is the JavaScript \<open>length\<close>. The
  source names one character beyond them, the bullet U+2022; the control code 0x95 stands
  for it, which no class and no case mapping of the scraper tells apart from it.
  Its numbers are IEEE doubles; the model keeps the three non-finite values apart and
  carries a finite number as the exact real it denotes (rounding to the nearest double
  and the sign of zero are not modelled).
\<close>

datatype number = NaN | PosInfinity | NegInfinity | Finite real

datatype jsval =
    JUndefined
  | JNull
  | JBool bool
  | JNum number
  | JStr string
  | JArr "jsval list"
  | JObj "(string \<times> jsval) list"

text \<open>
  \<open>JObj\<close> lists the own enumerable properties of an object in the order of
  \<open>Object.keys\<close>; a property read takes the first entry of that name.
\<close>

datatype error = TypeError

subsection \<open>Characters and strings\<close>

definition is_space :: "char \<Rightarrow> bool" where
  \<comment> \<open>the class \<open>\s\<close>, also what \<open>trim\<close> removes: TAB, LF, VT, FF, CR, SP, NBSP\<close>
  "is_space c = (let n = (of_char c :: nat) in (9 \<le> n \<and> n \<le> 13) \<or> n = 32 \<or> n = 160)"

definition is_digit :: "char \<Rightarrow> bool" where
  \<comment> \<open>the class \<open>\d\<close>\<close>
  "is_digit c = (let n = (of_char c :: nat) in 48 \<le> n \<and> n \<le> 57)"

definition is_word :: "char \<Rightarrow> bool" where
  \<comment> \<open>the class \<open>\w\<close>, which is also \<open>[a-z0-9_]\<close> under the flag \<open>i\<close>\<close>
  "is_word c = (let n = (of_char c :: nat) in
     (48 \<le> n \<and> n \<le> 57) \<or> (65 \<le> n \<and> n \<le> 90) \<or> n = 95 \<or> (97 \<le> n \<and> n \<le> 122))"

definition lower_char :: "char \<Rightarrow> char" where
  \<comment> \<open>\<open>toLowerCase\<close> on one code unit: A-Z and the Latin-1 capitals gain bit 5\<close>
  "lower_char c = (let n = (of_char c :: nat) in
     if (65 \<le> n \<and> n \<le> 90) \<or> (192 \<le> n \<and> n \<le> 222 \<and> n \<noteq> 215)
     then Char (digit0 c) (digit1 c) (digit2 c) (digit3 c) (digit4 c) True (digit6 c) (digit7 c)
     else c)"

definition toLowerCase :: "string \<Rightarrow> string" where
  "toLowerCase s = map lower_char s"

fun starts_with :: "string \<Rightarrow> string \<Rightarrow> bool" where
  \<comment> \<open>\<open>starts_with p s\<close>: \<open>s\<close> begins with \<open>p\<close>\<close>
  "starts_with [] s = True"
| "starts_with (p # ps) [] = False"
| "starts_with (p # ps) (c # cs) = (p = c \<and> starts_with ps cs)"

fun str_includes :: "string \<Rightarrow> string \<Rightarrow> bool" where
  \<comment> \<open>\<open>str_includes s p\<close> is \<open>s.includes(p)\<close>: \<open>p\<close> occurs in \<open>s\<close>\<close>
  "str_includes [] p = (p = [])"
| "str_includes (c # cs) p = (starts_with p (c # cs) \<or> str_includes cs p)"

fun collapse :: "bool \<Rightarrow> string \<Rightarrow> string" where
  \<comment> \<open>\<open>replace(/\s+/g, " ")\<close>; the flag says that the run of white space has begun\<close>
  "collapse inrun [] = []"
| "collapse inrun (c # cs) =
     (if is_space c then (if inrun then collapse True cs else CHR '' '' # collapse True cs)
      else c # collapse False cs)"

definition trim :: "string \<Rightarrow> string" where
  "trim s = rev (dropWhile is_space (rev (dropWhile is_space s)))"

definition clean :: "string \<Rightarrow> string" where
  \<comment> \<open>\<open>(s || "").replace(/\s+/g, " ").trim()\<close> on a string \<open>s\<close>\<close>
  "clean s = trim (collapse False s)"

fun tidy :: "bool \<Rightarrow> string \<Rightarrow> bool" where
  \<comment> \<open>white space is the single space only, never two in a row; with the flag set, the
      string does not begin with one either\<close>
  "tidy prev [] = True"
| "tidy prev (c # cs) =
     (if is_space c then c = CHR '' '' \<and> \<not> prev \<and> tidy True cs else tidy False cs)"

definition rtrim :: "string \<Rightarrow> string" where
  \<comment> \<open>the second half of \<open>trim\<close>: white space removed at the end\<close>
  "rtrim x = rev (dropWhile is_space (rev x))"

subsection \<open>\<open>parseFloat\<close>\<close>

definition digit_val :: "char \<Rightarrow> nat" where
  "digit_val c = of_char c - 48"

definition digits_val :: "string \<Rightarrow> nat" where
  "digits_val ds = foldl (\<lambda>acc c. 10 * acc + digit_val c) 0 ds"

definition exponent_part :: "string \<Rightarrow> int" where
  \<comment> \<open>the value of a leading \<open>[eE][+-]?\d+\<close>, 0 when there is none\<close>
  "exponent_part s =
     (case s of
        [] \<Rightarrow> 0
      | c # r \<Rightarrow>
          if c = CHR ''e'' \<or> c = CHR ''E'' then
            (case r of
               [] \<Rightarrow> 0
             | d # r' \<Rightarrow>
                 if d = CHR ''-'' then
                   (if takeWhile is_digit r' = [] then 0 else - int (digits_val (takeWhile is_digit r')))
                 else if d = CHR ''+'' then int (digits_val (takeWhile is_digit r'))
                 else int (digits_val (takeWhile is_digit r)))
          else 0)"

definition scale10 :: "real \<Rightarrow> int \<Rightarrow> real" where
  "scale10 m e = (if 0 \<le> e then m * 10 ^ nat e else m / 10 ^ nat (- e))"

definition parseFloat :: "string \<Rightarrow> number" where
  \<comment> \<open>skip white space, an optional sign, then the longest decimal literal or \<open>Infinity\<close>\<close>
  "parseFloat s =
     (let s1 = dropWhile is_space s;
          neg = starts_with ''-'' s1;
          s2 = (if starts_with ''-'' s1 \<or> starts_with ''+'' s1 then tl s1 else s1)
      in if starts_with ''Infinity'' s2 then (if neg then NegInfinity else PosInfinity)
         else
           let ip = takeWhile is_digit s2;
               r1 = dropWhile is_digit s2;
               dot = starts_with ''.'' r1;
               fp = (if dot then takeWhile is_digit (tl r1) else []);
               r2 = (if dot then dropWhile is_digit (tl r1) else r1)
           in if ip = [] \<and> fp = [] then NaN
              else
                let m = real (digits_val (ip @ fp)) / 10 ^ length fp;
                    v = scale10 m (exponent_part r2)
                in Finite (if neg then - v else v))"

section \<open>The network variant: fetch-whatnot-reviews.mjs\<close>

subsection \<open>Helpers on values\<close>

fun truthy :: "jsval \<Rightarrow> bool" where
  "truthy JUndefined = False"
| "truthy JNull = False"
| "truthy (JBool b) = b"
| "truthy (JNum n) = (n \<noteq> NaN \<and> n \<noteq> Finite 0)"
| "truthy (JStr s) = (s \<noteq> [])"
| "truthy (JArr xs) = True"
| "truthy (JObj kvs) = True"

fun nullish :: "jsval \<Rightarrow> bool" where
  \<comment> \<open>\<open>v == null\<close>\<close>
  "nullish JUndefined = True"
| "nullish JNull = True"
| "nullish v = False"

definition coalesce :: "jsval \<Rightarrow> jsval \<Rightarrow> jsval" where
  \<comment> \<open>\<open>a ?? b\<close>; neither operand has an effect here, so both may be values\<close>
  "coalesce a b = (if nullish a then b else a)"

fun lookup :: "jsval \<Rightarrow> string \<Rightarrow> jsval" where
  \<comment> \<open>\<open>obj[k]\<close> for a value that is neither null nor undefined, and a name that no
      built-in prototype carries (every name the scraper reads is such a name)\<close>
  "lookup (JObj kvs) k = (case map_of kvs k of Some v \<Rightarrow> v | None \<Rightarrow> JUndefined)"
| "lookup v k = JUndefined"

fun isObject :: "jsval \<Rightarrow> bool" where
  \<comment> \<open>\<open>x && typeof x === "object" && !Array.isArray(x)\<close>, read as a condition\<close>
  "isObject (JObj kvs) = True"
| "isObject v = False"

subsection \<open>normalizeReview\<close>

fun get :: "jsval \<Rightarrow> string list \<Rightarrow> jsval" where
  "get obj [] = JNull"
| "get obj (k # ks) =
     (if truthy obj \<and> \<not> nullish (lookup obj k) then lookup obj k else get obj ks)"

record review =
  reviewer :: jsval
  rating :: jsval
  text' :: jsval

definition rating_of :: "jsval \<Rightarrow> jsval" where
  "rating_of item =
     (let r0 = coalesce (get item [''rating'', ''stars'', ''score''])
                        (get item [''starRating'', ''star_rating'', ''reviewRating'']);
          r1 = (case r0 of JStr s \<Rightarrow> JNum (parseFloat s) | v \<Rightarrow> v)
      in case r1 of JNum n \<Rightarrow> (if n = NaN then JNull else JNum n) | v \<Rightarrow> JNull)"

definition nested :: "jsval \<Rightarrow> string \<Rightarrow> string list \<Rightarrow> jsval" where
  \<comment> \<open>\<open>isObject(item.f) ? get(item.f, keys) : null\<close>\<close>
  "nested item f keys = (if isObject (lookup item f) then get (lookup item f) keys else JNull)"

definition reviewer_of :: "jsval \<Rightarrow> jsval" where
  "reviewer_of item =
     coalesce (coalesce (coalesce (get item [''reviewer'', ''username''])
       (nested item ''user'' [''username'', ''name'', ''handle'']))
       (nested item ''buyer'' [''username'', ''name'', ''handle'']))
       (nested item ''reviewer'' [''username'', ''name'', ''handle''])"

definition text_of :: "jsval \<Rightarrow> jsval" where
  "text_of item =
     coalesce (coalesce (get item [''text'', ''message'', ''comment'', ''review''])
       (get item [''body'', ''content'']))
       (nested item ''feedback'' [''text'', ''message'', ''comment''])"

definition string_or_empty :: "jsval \<Rightarrow> string" where
  \<comment> \<open>\<open>typeof v === "string" ? v : ""\<close>\<close>
  "string_or_empty v = (case v of JStr s \<Rightarrow> s | _ \<Rightarrow> [])"

definition normalizeReview :: "jsval \<Rightarrow> error + review" where
  \<comment> \<open>On \<open>null\<close> or \<open>undefined\<close> the first \<open>get\<close> answers null and the read
      \<open>item.user\<close> throws; any other value lets every read through.\<close>
  "normalizeReview item =
     (if nullish item then Inl TypeError
      else Inr \<lparr> reviewer = JStr (clean (string_or_empty (reviewer_of item))),
                 rating = rating_of item,
                 text' = JStr (clean (string_or_empty (text_of item))) \<rparr>)"

subsection \<open>findReviewItemsDeep\<close>

definition hasRating :: "string list \<Rightarrow> bool" where
  "hasRating keys =
     (''rating'' \<in> set keys \<or> ''stars'' \<in> set keys \<or> ''score'' \<in> set keys \<or>
      list_ex (\<lambda>k. str_includes k ''rating'') keys)"

definition hasText :: "string list \<Rightarrow> bool" where
  "hasText keys =
     (''text'' \<in> set keys \<or> ''message'' \<in> set keys \<or> ''comment'' \<in> set keys \<or>
      ''review'' \<in> set keys \<or>
      list_ex (\<lambda>k. str_includes k ''comment'' \<or> str_includes k ''message'' \<or>
                     str_includes k ''text'') keys)"

definition hasUser :: "string list \<Rightarrow> bool" where
  "hasUser keys =
     (''username'' \<in> set keys \<or> ''reviewer'' \<in> set keys \<or> ''buyer'' \<in> set keys \<or>
      ''user'' \<in> set keys \<or>
      list_ex (\<lambda>k. str_includes k ''user'' \<or> str_includes k ''buyer'') keys)"

fun review_like :: "jsval \<Rightarrow> bool" where
  \<comment> \<open>the test of one array element: the body of the first loop\<close>
  "review_like (JObj kvs) =
     (let keys = map (\<lambda>kv. toLowerCase (fst kv)) kvs
      in hasRating keys \<and> hasText keys \<and> hasUser keys)"
| "review_like v = False"

fun findReviewItemsDeep :: "jsval \<Rightarrow> jsval list \<Rightarrow> jsval list"
  and visit_items :: "jsval list \<Rightarrow> jsval list \<Rightarrow> jsval list"
  and visit_values :: "(string \<times> jsval) list \<Rightarrow> jsval list \<Rightarrow> jsval list"
where
  "findReviewItemsDeep (JArr items) found = visit_items items (found @ filter review_like items)"
| "findReviewItemsDeep (JObj kvs) found = visit_values kvs found"
| "findReviewItemsDeep JUndefined found = found"
| "findReviewItemsDeep JNull found = found"
| "findReviewItemsDeep (JBool b) found = found"
| "findReviewItemsDeep (JNum n) found = found"
| "findReviewItemsDeep (JStr s) found = found"
| "visit_items [] found = found"
| "visit_items (item # items) found = visit_items items (findReviewItemsDeep item found)"
| "visit_values [] found = found"
| "visit_values (kv # kvs) found = visit_values kvs (findReviewItemsDeep (snd kv) found)"

text \<open>
  What the scanner is meant to return, said without the accumulator: the arrays of the
  tree in the order in which the traversal meets them, each filtered by the element test.
\<close>

fun arrays_of :: "jsval \<Rightarrow> jsval list list"
  and arrays_of_items :: "jsval list \<Rightarrow> jsval list list"
  and arrays_of_values :: "(string \<times> jsval) list \<Rightarrow> jsval list list"
where
  "arrays_of (JArr items) = items # arrays_of_items items"
| "arrays_of (JObj kvs) = arrays_of_values kvs"
| "arrays_of JUndefined = []"
| "arrays_of JNull = []"
| "arrays_of (JBool b) = []"
| "arrays_of (JNum n) = []"
| "arrays_of (JStr s) = []"
| "arrays_of_items [] = []"
| "arrays_of_items (item # items) = arrays_of item @ arrays_of_items items"
| "arrays_of_values [] = []"
| "arrays_of_values (kv # kvs) = arrays_of (snd kv) @ arrays_of_values kvs"

subsection \<open>Conversions to string\<close>

text \<open>
  A template literal and \<open>RegExp.test\<close> convert their operand to a string. The
  conversion of a finite number is the host's; it is a parameter \<open>ns\<close> of every
  function that needs it, so that what is proved holds for the host's conversion.
\<close>

fun number_to_string :: "(real \<Rightarrow> string) \<Rightarrow> number \<Rightarrow> string" where
  "number_to_string ns NaN = ''NaN''"
| "number_to_string ns PosInfinity = ''Infinity''"
| "number_to_string ns NegInfinity = ''-Infinity''"
| "number_to_string ns (Finite x) = ns x"

fun to_string :: "(real \<Rightarrow> string) \<Rightarrow> jsval \<Rightarrow> string"
  and join_items :: "(real \<Rightarrow> string) \<Rightarrow> jsval list \<Rightarrow> string"
where
  "to_string ns JUndefined = ''undefined''"
| "to_string ns JNull = ''null''"
| "to_string ns (JBool b) = (if b then ''true'' else ''false'')"
| "to_string ns (JNum n) = number_to_string ns n"
| "to_string ns (JStr s) = s"
| "to_string ns (JArr xs) = join_items ns xs"
| "to_string ns (JObj kvs) = ''[object Object]''"
| "join_items ns [] = []"
| "join_items ns (x # xs) =
     (if nullish x then [] else to_string ns x) @
     (if xs = [] then [] else CHR '','' # join_items ns xs)"

subsection \<open>Regular expressions of the scraper\<close>

fun any_suffix :: "(string \<Rightarrow> bool) \<Rightarrow> string \<Rightarrow> bool" where
  \<comment> \<open>an unanchored pattern is tried at every position, the end included\<close>
  "any_suffix P [] = P []"
| "any_suffix P (c # cs) = (P (c # cs) \<or> any_suffix P cs)"

definition test_ci :: "string list \<Rightarrow> string \<Rightarrow> bool" where
  \<comment> \<open>\<open>/a|b|c/i.test(s)\<close> for lower-case literal alternatives\<close>
  "test_ci alts s = list_ex (\<lambda>a. str_includes (toLowerCase s) a) alts"

definition reviews_paren :: "string \<Rightarrow> bool" where
  \<comment> \<open>\<open>/reviews\s*\(/i.test(s)\<close>\<close>
  "reviews_paren s =
     any_suffix (\<lambda>u. starts_with ''reviews'' (toLowerCase u) \<and>
                      starts_with ''('' (dropWhile is_space (drop 7 u))) s"

definition rating_here :: "string \<Rightarrow> bool" where
  \<comment> \<open>\<open>[0-5]\.\d\b\<close> at the start of the string\<close>
  "rating_here s =
     (case s of
        a # b # c # rest \<Rightarrow>
          is_digit a \<and> of_char a \<le> (53::nat) \<and> b = CHR ''.'' \<and> is_digit c \<and>
          (case rest of [] \<Rightarrow> True | d # r \<Rightarrow> \<not> is_word d)
      | _ \<Rightarrow> False)"

fun rating_scan :: "bool \<Rightarrow> string \<Rightarrow> string option" where
  \<comment> \<open>the first match of \<open>/\b([0-5]\.\d)\b/\<close>; the flag says that the character
      before is a word character, where \<open>\b\<close> before a digit fails\<close>
  "rating_scan pw [] = None"
| "rating_scan pw (a # s) =
     (if \<not> pw \<and> rating_here (a # s) then Some (take 3 (a # s))
      else rating_scan (is_word a) s)"

definition rating_match :: "string \<Rightarrow> string option" where
  \<comment> \<open>group 1 of \<open>t.match(/\b([0-5]\.\d)\b/)\<close>\<close>
  "rating_match t = rating_scan False t"

definition user_match :: "string \<Rightarrow> string option" where
  \<comment> \<open>group 1 of \<open>t.match(/^\s*([a-z0-9_]{3,25})\b/i)\<close>: the greedy run must end at a
      word boundary, so it is the whole run of word characters, of 3 to 25 of them\<close>
  "user_match t =
     (let run = takeWhile is_word (dropWhile is_space t)
      in if 3 \<le> length run \<and> length run \<le> 25 then Some run else None)"

fun remove_see_more :: "nat \<Rightarrow> string \<Rightarrow> string" where
  \<comment> \<open>\<open>replace(/see more/gi, "")\<close>; the counter is the rest of a match being dropped\<close>
  "remove_see_more k [] = []"
| "remove_see_more (Suc k) (c # cs) = remove_see_more k cs"
| "remove_see_more 0 (c # cs) =
     (if starts_with ''see more'' (toLowerCase (c # cs)) then remove_see_more 7 cs
      else c # remove_see_more 0 cs)"

definition strip_user :: "string \<Rightarrow> string \<Rightarrow> string" where
  \<comment> \<open>\<open>body.replace(new RegExp("^" + user + "\\s*", "i"), "")\<close> for a \<open>user\<close> of word
      characters\<close>
  "strip_user user body =
     (if starts_with (toLowerCase user) (toLowerCase body)
      then dropWhile is_space (drop (length user) body) else body)"

subsection \<open>main: capture, network strategy, DOM fallback, payload\<close>

record response =
  url :: string
  headers :: "(string \<times> string) list"
  status :: nat
  json :: "jsval option"

text \<open>\<open>json\<close> is \<open>None\<close> when \<open>res.json()\<close> rejects, which the handler turns into null.\<close>

definition on_response :: "(string \<times> jsval) list \<Rightarrow> response \<Rightarrow> (string \<times> jsval) list" where
  "on_response networkCandidates res =
     (let ct = toLowerCase (case map_of (headers res) ''content-type'' of
                              None \<Rightarrow> [] | Some h \<Rightarrow> h)
      in if \<not> str_includes ct ''application/json'' \<and> \<not> str_includes (url res) ''graphql''
         then networkCandidates
         else if status res < 200 \<or> status res \<ge> 300 then networkCandidates
         else (case json res of
                 None \<Rightarrow> networkCandidates
               | Some data \<Rightarrow>
                   if \<not> truthy data then networkCandidates
                   else networkCandidates @ [(url res, data)]))"

definition is_noise_net :: "(real \<Rightarrow> string) \<Rightarrow> jsval \<Rightarrow> bool" where
  \<comment> \<open>\<open>/followers|following|sold|reviews\s*\(/i.test(r.text)\<close>\<close>
  "is_noise_net ns v =
     (test_ci [''followers'', ''following'', ''sold''] (to_string ns v) \<or>
      reviews_paren (to_string ns v))"

fun extract_items :: "(real \<Rightarrow> string) \<Rightarrow> jsval list \<Rightarrow> review list \<Rightarrow> error + review list" where
  \<comment> \<open>the inner loop; it leaves with more than 50 records or at the end of the items\<close>
  "extract_items ns [] extracted = Inr extracted"
| "extract_items ns (it # its) extracted =
     (case normalizeReview it of
        Inl e \<Rightarrow> Inl e
      | Inr r \<Rightarrow>
          if \<not> truthy (reviewer r) \<or> \<not> truthy (text' r) \<or> nullish (rating r)
          then extract_items ns its extracted
          else if is_noise_net ns (text' r) then extract_items ns its extracted
          else if length (extracted @ [r]) > 50 then Inr (extracted @ [r])
          else extract_items ns its (extracted @ [r]))"

fun extract_network :: "(real \<Rightarrow> string) \<Rightarrow> (string \<times> jsval) list \<Rightarrow> review list \<Rightarrow> error + review list" where
  \<comment> \<open>the outer loop over the captured candidates\<close>
  "extract_network ns [] extracted = Inr extracted"
| "extract_network ns (c # cs) extracted =
     (case extract_items ns (findReviewItemsDeep (snd c) []) extracted of
        Inl e \<Rightarrow> Inl e
      | Inr extracted' \<Rightarrow>
          if length extracted' > 50 then Inr extracted' else extract_network ns cs extracted')"

definition review_key :: "(real \<Rightarrow> string) \<Rightarrow> review \<Rightarrow> string" where
  \<comment> \<open>the template literal \<open>${r.reviewer}|${r.rating}|${r.text}\<close>\<close>
  "review_key ns r =
     to_string ns (reviewer r) @ ''|'' @ to_string ns (rating r) @ ''|'' @ to_string ns (text' r)"

fun dedupe :: "(real \<Rightarrow> string) \<Rightarrow> string list \<Rightarrow> review list \<Rightarrow> review list" where
  \<comment> \<open>\<open>extracted.filter(...)\<close> with the set \<open>seen\<close> of keys\<close>
  "dedupe ns seen [] = []"
| "dedupe ns seen (r # rs) =
     (if review_key ns r \<in> set seen then dedupe ns seen rs
      else r # dedupe ns (review_key ns r # seen) rs)"

definition is_noise_dom :: "string \<Rightarrow> bool" where
  \<comment> \<open>\<open>/followers|following|sold/i.test(t)\<close>\<close>
  "is_noise_dom t = test_ci [''followers'', ''following'', ''sold''] t"

fun dom_loop :: "nat \<Rightarrow> string list \<Rightarrow> review list \<Rightarrow> review list" where
  \<comment> \<open>the loop over the blocks inside \<open>page.evaluate\<close>\<close>
  "dom_loop limit [] out = out"
| "dom_loop limit (t # ts) out =
     (if is_noise_dom t then dom_loop limit ts out
      else
        case (rating_match t, user_match t) of
          (Some rm, Some um) \<Rightarrow>
            (let body = trim (strip_user um (trim (remove_see_more 0 t)))
             in if length body < 10 then dom_loop limit ts out
                else
                  let out' = out @ [\<lparr> reviewer = JStr um, rating = JNum (parseFloat rm),
                                      text' = JStr body \<rparr>]
                  in if length out' \<ge> limit then out' else dom_loop limit ts out')
        | _ \<Rightarrow> dom_loop limit ts out)"

definition dom_fallback :: "nat \<Rightarrow> string list \<Rightarrow> review list" where
  \<comment> \<open>\<open>divs\<close>: the \<open>textContent\<close> of every \<open>div\<close> of the document, in document order\<close>
  "dom_fallback limit divs =
     (let blocks = filter (\<lambda>t. length t > 40 \<and> length t < 500) (map clean divs)
      in take limit (dom_loop limit blocks []))"

datatype strategy = Network | Dom

definition run_extraction :: "(real \<Rightarrow> string) \<Rightarrow> nat \<Rightarrow> response list \<Rightarrow> string list \<Rightarrow>
    error + strategy list \<times> review list" where
  \<comment> \<open>lines 160 to 220: the strategies that ran, and \<open>extracted.slice(0, LIMIT)\<close>\<close>
  "run_extraction ns limit responses divs =
     (case extract_network ns (foldl on_response [] responses) [] of
        Inl e \<Rightarrow> Inl e
      | Inr extracted0 \<Rightarrow>
          let extracted = dedupe ns [] extracted0
          in if length extracted = 0
             then Inr ([Network, Dom], take limit (dom_fallback limit divs))
             else Inr ([Network], take limit extracted))"

definition clean_val :: "jsval \<Rightarrow> error + string" where
  \<comment> \<open>\<open>clean(s)\<close> on any value: a falsy one becomes \<open>""\<close>, a truthy one that is not a
      string has no \<open>replace\<close>\<close>
  "clean_val v =
     (if \<not> truthy v then Inr (clean [])
      else case v of JStr s \<Rightarrow> Inr (clean s) | _ \<Rightarrow> Inl TypeError)"

definition serialize_rating :: "jsval \<Rightarrow> jsval" where
  \<comment> \<open>\<open>typeof r.rating === "number" ? r.rating : 5.0\<close>\<close>
  "serialize_rating v = (case v of JNum n \<Rightarrow> JNum n | _ \<Rightarrow> JNum (Finite 5))"

definition serialize :: "review \<Rightarrow> error + review" where
  "serialize r =
     (case clean_val (reviewer r) of
        Inl e \<Rightarrow> Inl e
      | Inr u \<Rightarrow>
          (case clean_val (text' r) of
             Inl e \<Rightarrow> Inl e
           | Inr t \<Rightarrow> Inr \<lparr> reviewer = JStr u, rating = serialize_rating (rating r),
                             text' = JStr t \<rparr>))"

fun serialize_all :: "review list \<Rightarrow> error + review list" where
  \<comment> \<open>\<open>reviews.map(...)\<close>; the first throw ends it\<close>
  "serialize_all [] = Inr []"
| "serialize_all (r # rs) =
     (case serialize r of
        Inl e \<Rightarrow> Inl e
      | Inr r' \<Rightarrow> (case serialize_all rs of Inl e \<Rightarrow> Inl e | Inr rs' \<Rightarrow> Inr (r' # rs')))"

record payload =
  source :: string
  profile_url :: string
  fetched_at :: string
  count :: nat
  reviews :: "review list"

definition TARGET_URL :: string where
  "TARGET_URL = ''https://www.whatnot.com/user/collectingfever/reviews''"

definition LIMIT :: nat where
  "LIMIT = 6"

definition main :: "(real \<Rightarrow> string) \<Rightarrow> nat \<Rightarrow> string \<Rightarrow> response list \<Rightarrow> string list \<Rightarrow>
    error + payload" where
  \<comment> \<open>\<open>limit\<close> stands for the constant \<open>LIMIT\<close>, \<open>now\<close> for the clock; the responses are
      those delivered before the extraction starts\<close>
  "main ns limit now responses divs =
     (case run_extraction ns limit responses divs of
        Inl e \<Rightarrow> Inl e
      | Inr (tried, revs) \<Rightarrow>
          (case serialize_all revs of
             Inl e \<Rightarrow> Inl e
           | Inr out \<Rightarrow>
               Inr \<lparr> source = ''whatnot'', profile_url = TARGET_URL, fetched_at = now,
                     count = length revs, reviews = out \<rparr>))"

section \<open>The rendered-page variant: the file with the card locator\<close>

text \<open>
  This variant reads the rendered document only. Of an element it uses the
  \<open>textContent\<close> and the chain of parents, so an element is its \<open>textContent\<close> and an
  anchor carries the \<open>textContent\<close> of its parent, of that one's parent, and so on.
\<close>

record anchor =
  label :: string
  ancestors :: "string list"

record document =
  anchors :: "anchor list"
  divs :: "string list"

text \<open>
  \<open>anchors\<close>: the elements \<open>a\<close> and \<open>button\<close> in document order; \<open>divs\<close>: the
  \<open>textContent\<close> of every \<open>div\<close> in document order.
\<close>

definition isNoise :: "string \<Rightarrow> bool" where
  "isNoise t =
     test_ci [''following'', ''followers'', ''sold'', ''whatnot'', ''become a seller'',
              ''log in'', ''sign up''] t"

definition getRating :: "string \<Rightarrow> jsval" where
  "getRating t = (case rating_match t of Some m \<Rightarrow> JNum (parseFloat m) | None \<Rightarrow> JNull)"

definition date_len :: "string \<Rightarrow> nat option" where
  \<comment> \<open>the length of a match of \<open>\d{1,2}\/\d{1,2}\/\d{4}\b\<close> at the start: each group
      of digits is followed by a slash, so it is the whole run of digits there\<close>
  "date_len s =
     (let n1 = length (takeWhile is_digit s); s1 = drop n1 s
      in if (n1 = 1 \<or> n1 = 2) \<and> starts_with ''/'' s1 then
           (let n2 = length (takeWhile is_digit (tl s1)); s2 = drop n2 (tl s1)
            in if (n2 = 1 \<or> n2 = 2) \<and> starts_with ''/'' s2 then
                 (if length (takeWhile is_digit (take 4 (tl s2))) = 4 \<and>
                     (case drop 4 (tl s2) of [] \<Rightarrow> True | d # r \<Rightarrow> \<not> is_word d)
                  then Some (n1 + n2 + 6) else None)
               else None)
         else None)"

fun date_scan :: "bool \<Rightarrow> string \<Rightarrow> bool" where
  \<comment> \<open>\<open>/\b\d{1,2}\/\d{1,2}\/\d{4}\b/\<close> somewhere; the flag as in \<open>rating_scan\<close>\<close>
  "date_scan pw [] = False"
| "date_scan pw (a # s) = ((\<not> pw \<and> date_len (a # s) \<noteq> None) \<or> date_scan (is_word a) s)"

definition hasDate :: "string \<Rightarrow> bool" where
  "hasDate t = date_scan False t"

definition getReviewer :: "string \<Rightarrow> string option" where
  "getReviewer t = user_match t"

definition see_more :: "string \<Rightarrow> bool" where
  \<comment> \<open>\<open>/see more/i.test(t)\<close>\<close>
  "see_more t = test_ci [''see more''] t"

fun climb :: "nat \<Rightarrow> string list \<Rightarrow> string option" where
  \<comment> \<open>the walk up from an anchor: at most \<open>i\<close> parents, the first plausible card\<close>
  "climb 0 ps = None"
| "climb (Suc i) [] = None"
| "climb (Suc i) (p # ps) =
     (if getRating (clean p) \<noteq> JNull \<and> \<not> isNoise (clean p) \<and>
         length (clean p) > 40 \<and> length (clean p) < 900
      then Some p else climb i ps)"

definition anchor_cards :: "document \<Rightarrow> string list" where
  "anchor_cards doc =
     List.map_filter (\<lambda>el. climb 10 (ancestors el))
       (filter (\<lambda>el. see_more (clean (label el))) (anchors doc))"

fun block_loop :: "(string \<times> string) list \<Rightarrow> string list \<Rightarrow> string list" where
  \<comment> \<open>the fallback loop; a block is the element and its cleaned text\<close>
  "block_loop [] cards = cards"
| "block_loop (b # bs) cards =
     (if getRating (snd b) = JNull then block_loop bs cards
      else if isNoise (snd b) then block_loop bs cards
      else
        let cards' = (if hasDate (snd b) \<or> see_more (snd b) then cards @ [fst b] else cards)
        in if length cards' > 60 then cards' else block_loop bs cards')"

definition candidateCards :: "document \<Rightarrow> string list" where
  "candidateCards doc =
     (if length (anchor_cards doc) = 0
      then block_loop
             (filter (\<lambda>x. length (snd x) > 40 \<and> length (snd x) < 650)
                (map (\<lambda>el. (el, clean el)) (divs doc))) []
      else anchor_cards doc)"

definition strip_date :: "string \<Rightarrow> string" where
  \<comment> \<open>\<open>replace(/^\b\d{1,2}\/\d{1,2}\/\d{4}\b\s*/i, "")\<close>\<close>
  "strip_date body =
     (case date_len body of Some n \<Rightarrow> dropWhile is_space (drop n body) | None \<Rightarrow> body)"

definition strip_rating :: "string \<Rightarrow> string" where
  \<comment> \<open>\<open>replace(/^\b[0-5]\.\d\b\s*/i, "")\<close>\<close>
  "strip_rating body = (if rating_here body then dropWhile is_space (drop 3 body) else body)"

definition bullet :: char where
  \<comment> \<open>the code unit that stands for U+2022\<close>
  "bullet = CHR 0x95"

definition summary_here :: "string \<Rightarrow> bool" where
  \<comment> \<open>\<open>reviews\)\s*[bullet]\s*\d+\s*sold\<close> under the flag \<open>i\<close>, at the start of the
      string\<close>
  "summary_here u =
     (starts_with ''reviews)'' (toLowerCase u) \<and>
      (let v = dropWhile is_space (drop 8 u)
       in starts_with [bullet] v \<and>
          (let w = dropWhile is_space (tl v)
           in takeWhile is_digit w \<noteq> [] \<and>
              starts_with ''sold''
                (toLowerCase (dropWhile is_space (dropWhile is_digit w))))))"

definition is_summary :: "string \<Rightarrow> bool" where
  \<comment> \<open>\<open>/reviews\)\s*[bullet]\s*\d+\s*sold/i.test(body)\<close>\<close>
  "is_summary body = any_suffix summary_here body"

definition parse_card :: "string \<Rightarrow> review option" where
  \<comment> \<open>the body of the loop over the candidate cards; \<open>None\<close> is \<open>continue\<close>\<close>
  "parse_card crd =
     (let raw = clean crd
      in if isNoise raw then None
         else if getRating raw = JNull then None
         else
           case getReviewer raw of
             None \<Rightarrow> None
           | Some user \<Rightarrow>
               let body = trim (remove_see_more 0 raw);
                   body = trim (strip_user user body);
                   body = trim (strip_date body);
                   body = trim (strip_rating body)
               in if length body < 10 then None
                  else if is_summary body then None
                  else Some \<lparr> reviewer = JStr user, rating = getRating raw, text' = JStr body \<rparr>)"

fun parse_loop :: "nat \<Rightarrow> string list \<Rightarrow> review list \<Rightarrow> review list" where
  "parse_loop limit [] out = out"
| "parse_loop limit (crd # cards) out =
     (case parse_card crd of
        None \<Rightarrow> parse_loop limit cards out
      | Some r \<Rightarrow>
          if length (out @ [r]) \<ge> limit * 3 then out @ [r]
          else parse_loop limit cards (out @ [r]))"

fun uniq_loop :: "(real \<Rightarrow> string) \<Rightarrow> nat \<Rightarrow> string list \<Rightarrow> review list \<Rightarrow> review list \<Rightarrow>
    review list" where
  \<comment> \<open>the loop that fills \<open>uniq\<close>, with the set \<open>seen\<close> of keys\<close>
  "uniq_loop ns limit seen uniq [] = uniq"
| "uniq_loop ns limit seen uniq (r # rs) =
     (if review_key ns r \<in> set seen then uniq_loop ns limit seen uniq rs
      else if length (uniq @ [r]) \<ge> limit then uniq @ [r]
      else uniq_loop ns limit (review_key ns r # seen) (uniq @ [r]) rs)"

definition dedupe_cards :: "(real \<Rightarrow> string) \<Rightarrow> nat \<Rightarrow> review list \<Rightarrow> review list" where
  \<comment> \<open>step 4 of the function: the loop from empty \<open>seen\<close> and \<open>uniq\<close>, then
      \<open>uniq.slice(0, limit)\<close>\<close>
  "dedupe_cards ns limit out = take limit (uniq_loop ns limit [] [] out)"

definition evaluate :: "(real \<Rightarrow> string) \<Rightarrow> nat \<Rightarrow> document \<Rightarrow> review list" where
  \<comment> \<open>the function given to \<open>page.evaluate\<close>\<close>
  "evaluate ns limit doc = dedupe_cards ns limit (parse_loop limit (candidateCards doc) [])"

definition main_dom :: "(real \<Rightarrow> string) \<Rightarrow> nat \<Rightarrow> string \<Rightarrow> document \<Rightarrow> error + payload" where
  \<comment> \<open>\<open>main\<close> of this variant; the payload is built as in the network variant\<close>
  "main_dom ns limit now doc =
     (case serialize_all (evaluate ns limit doc) of
        Inl e \<Rightarrow> Inl e
      | Inr out \<Rightarrow>
          Inr \<lparr> source = ''whatnot'', profile_url = TARGET_URL, fetched_at = now,
                count = length (evaluate ns limit doc), reviews = out \<rparr>)"

section \<open>The simplest variant\<close>

text \<open>
  This variant looks for the element whose text announces the number of reviews and reads
  the \<open>div\<close> elements below it, or below \<open>body\<close> when there is none. An element is
  its \<open>textContent\<close> and the \<open>textContent\<close> of the \<open>div\<close> elements below it.
\<close>

record element =
  textContent :: string
  inner_divs :: "string list"

record page =
  containers :: "element list"
  body_divs :: "string list"

text \<open>
  \<open>containers\<close>: the elements \<open>section\<close> and \<open>div\<close> in document order;
  \<open>body_divs\<close>: the \<open>textContent\<close> of every \<open>div\<close> of the document.
\<close>

definition reviews_count_here :: "string \<Rightarrow> bool" where
  \<comment> \<open>\<open>reviews\s*\(\d+\)\<close> under the flag \<open>i\<close>, at the start of the string\<close>
  "reviews_count_here u =
     (starts_with ''reviews'' (toLowerCase u) \<and>
      (let v = dropWhile is_space (drop 7 u)
       in starts_with ''('' v \<and> takeWhile is_digit (tl v) \<noteq> [] \<and>
          starts_with '')'' (dropWhile is_digit (tl v))))"

definition has_reviews_count :: "string \<Rightarrow> bool" where
  \<comment> \<open>\<open>/reviews\s*\(\d+\)/i.test(t)\<close>\<close>
  "has_reviews_count t = any_suffix reviews_count_here t"

definition root_divs :: "page \<Rightarrow> string list" where
  \<comment> \<open>\<open>root.querySelectorAll("div")\<close> for the first announcing element, else for \<open>body\<close>\<close>
  "root_divs pg =
     (case find (\<lambda>el. has_reviews_count (clean (textContent el))) (containers pg) of
        Some el \<Rightarrow> inner_divs el
      | None \<Rightarrow> body_divs pg)"

fun word_run_scan :: "string \<Rightarrow> string \<Rightarrow> string option" where
  \<comment> \<open>the first match of \<open>/\b[a-z0-9_]{3,20}\b/i\<close>: the first maximal run of word
      characters that has 3 to 20 of them; \<open>run\<close> is the current run, reversed\<close>
  "word_run_scan run [] =
     (if 3 \<le> length run \<and> length run \<le> 20 then Some (rev run) else None)"
| "word_run_scan run (c # cs) =
     (if is_word c then word_run_scan (c # run) cs
      else if 3 \<le> length run \<and> length run \<le> 20 then Some (rev run)
      else word_run_scan [] cs)"

definition reviewer_match :: "string \<Rightarrow> string option" where
  "reviewer_match t = word_run_scan [] t"

fun index_from :: "nat \<Rightarrow> string \<Rightarrow> string \<Rightarrow> nat option" where
  \<comment> \<open>\<open>s.indexOf(p)\<close>, counted from \<open>i\<close>; \<open>None\<close> is the answer -1\<close>
  "index_from i [] p = (if p = [] then Some i else None)"
| "index_from i (c # cs) p =
     (if starts_with p (c # cs) then Some i else index_from (Suc i) cs p)"

definition before_see_more :: "string \<Rightarrow> string" where
  \<comment> \<open>\<open>idx > 0 ? t.slice(0, idx) : t\<close> with \<open>idx = t.toLowerCase().indexOf("see more")\<close>\<close>
  "before_see_more t =
     (case index_from 0 (toLowerCase t) ''see more'' of
        Some idx \<Rightarrow> if idx > 0 then take idx t else t
      | None \<Rightarrow> t)"

definition split_count :: "string \<Rightarrow> nat" where
  \<comment> \<open>\<open>s.split(" ").length\<close>\<close>
  "split_count s = Suc (length (filter (\<lambda>c. c = CHR '' '') s))"

fun simple_loop :: "nat \<Rightarrow> string list \<Rightarrow> review list \<Rightarrow> review list" where
  "simple_loop limit [] out = out"
| "simple_loop limit (t # ts) out =
     (case rating_match t of
        None \<Rightarrow> simple_loop limit ts out
      | Some rm \<Rightarrow>
          (case reviewer_match t of
             None \<Rightarrow> simple_loop limit ts out
           | Some um \<Rightarrow>
               if split_count (before_see_more t) < 5 then simple_loop limit ts out
               else if length (out @ [\<lparr> reviewer = JStr um, rating = JNum (parseFloat rm),
                                          text' = JStr (before_see_more t) \<rparr>]) \<ge> limit * 3
               then out @ [\<lparr> reviewer = JStr um, rating = JNum (parseFloat rm),
                              text' = JStr (before_see_more t) \<rparr>]
               else simple_loop limit ts
                      (out @ [\<lparr> reviewer = JStr um, rating = JNum (parseFloat rm),
                                 text' = JStr (before_see_more t) \<rparr>])))"

definition evaluate_simple :: "(real \<Rightarrow> string) \<Rightarrow> nat \<Rightarrow> page \<Rightarrow> review list" where
  \<comment> \<open>the function given to \<open>page.evaluate\<close>; its loop over \<open>out\<close> is the one of the
      rendered-page variant\<close>
  "evaluate_simple ns limit pg =
     dedupe_cards ns limit
       (simple_loop limit
          (filter (\<lambda>t. length t > 20 \<and> length t < 900) (map clean (root_divs pg))) [])"

definition serialize_rating_simple :: "jsval \<Rightarrow> jsval" where
  \<comment> \<open>\<open>r.rating ?? 5.0\<close>\<close>
  "serialize_rating_simple v = coalesce v (JNum (Finite 5))"

definition serialize_simple :: "review \<Rightarrow> error + review" where
  "serialize_simple r =
     (case clean_val (reviewer r) of
        Inl e \<Rightarrow> Inl e
      | Inr u \<Rightarrow>
          (case clean_val (text' r) of
             Inl e \<Rightarrow> Inl e
           | Inr t \<Rightarrow> Inr \<lparr> reviewer = JStr u, rating = serialize_rating_simple (rating r),
                             text' = JStr t \<rparr>))"

fun serialize_all_simple :: "review list \<Rightarrow> error + review list" where
  "serialize_all_simple [] = Inr []"
| "serialize_all_simple (r # rs) =
     (case serialize_simple r of
        Inl e \<Rightarrow> Inl e
      | Inr r' \<Rightarrow>
          (case serialize_all_simple rs of Inl e \<Rightarrow> Inl e | Inr rs' \<Rightarrow> Inr (r' # rs')))"

definition main_simple :: "(real \<Rightarrow> string) \<Rightarrow> nat \<Rightarrow> string \<Rightarrow> page \<Rightarrow> error + payload" where
  "main_simple ns limit now pg =
     (case serialize_all_simple (evaluate_simple ns limit pg) of
        Inl e \<Rightarrow> Inl e
      | Inr out \<Rightarrow>
          Inr \<lparr> source = ''whatnot'', profile_url = TARGET_URL, fetched_at = now,
                count = length (evaluate_simple ns limit pg), reviews = out \<rparr>)"

section \<open>Predicates of the properties\<close>

definition spec_review_like :: "jsval \<Rightarrow> bool" where
  \<comment> \<open>The element test in the words of the specification: every indicator term counts
      when a key equals or contains it.\<close>
  "spec_review_like v =
     (case v of
        JObj kvs \<Rightarrow>
          (let keys = map (\<lambda>kv. toLowerCase (fst kv)) kvs
           in list_ex (\<lambda>k. list_ex (str_includes k) [''rating'', ''stars'', ''score'']) keys \<and>
              list_ex (\<lambda>k. list_ex (str_includes k)
                         [''text'', ''message'', ''comment'', ''review'']) keys \<and>
              list_ex (\<lambda>k. list_ex (str_includes k)
                         [''username'', ''reviewer'', ''buyer'', ''user'']) keys)
      | _ \<Rightarrow> False)"

definition spec_record_ok :: "review \<Rightarrow> bool" where
  \<comment> \<open>The invariant of a review record in the words of the specification: a rating from
      0.0 to 5.0, a reviewer matching \<open>[A-Za-z0-9_]{3,25}\<close>, a text of 10 characters or more.\<close>
  "spec_record_ok r =
     (case (reviewer r, rating r, text' r) of
        (JStr u, JNum (Finite x), JStr t) \<Rightarrow>
          0 \<le> x \<and> x \<le> 5 \<and> 3 \<le> length u \<and> length u \<le> 25 \<and> list_all is_word u \<and>
          10 \<le> length t
      | _ \<Rightarrow> False)"

fun space_words :: "string \<Rightarrow> string list" where
  \<comment> \<open>Collapsing and trimming said without the regular expression, to compare
      \<open>clean\<close> with: the words of a string are its maximal runs of characters that are
      not white space, in order.\<close>
  "space_words [] = []"
| "space_words (c # cs) =
     (if is_space c then space_words cs
      else case cs of
             [] \<Rightarrow> [[c]]
           | d # ds \<Rightarrow>
               if is_space d then [c] # space_words cs
               else (case space_words cs of [] \<Rightarrow> [[c]] | w # ws \<Rightarrow> (c # w) # ws))"

fun join_spaced :: "string list \<Rightarrow> string" where
  \<comment> \<open>the words with one space between neighbours and none at the ends\<close>
  "join_spaced [] = []"
| "join_spaced [w] = w"
| "join_spaced (w # v # ws) = w @ CHR '' '' # join_spaced (v # ws)"

definition gated :: "review \<Rightarrow> bool" where
  \<comment> \<open>what the gating of the network strategy lets through: strings as cleaning leaves
      them and not empty, and a number\<close>
  "gated r =
     (case (reviewer r, rating r, text' r) of
        (JStr u, JNum n, JStr t) \<Rightarrow>
          u \<noteq> [] \<and> clean u = u \<and> n \<noteq> NaN \<and> t \<noteq> [] \<and> clean t = t
      | _ \<Rightarrow> False)"

definition rating_values :: "real set" where
  \<comment> \<open>the numbers that \<open>[0-5]\.\d\<close> denotes: 0.0, 0.1, ... up to 5.9\<close>
  "rating_values = {real d + real e / 10 | d e. d \<le> 5 \<and> e \<le> 9}"

definition parsed_ok :: "review \<Rightarrow> bool" where
  \<comment> \<open>what the parsers of rendered text produce\<close>
  "parsed_ok r =
     (case (reviewer r, rating r, text' r) of
        (JStr u, JNum (Finite x), JStr t) \<Rightarrow>
          3 \<le> length u \<and> length u \<le> 25 \<and> list_all is_word u \<and>
          0 \<le> x \<and> x < 6 \<and> 10 \<le> length t \<and> \<not> is_space (hd t)
      | _ \<Rightarrow> False)"

definition simple_ok :: "review \<Rightarrow> bool" where
  \<comment> \<open>what the parser of the simplest variant produces\<close>
  "simple_ok r =
     (case (reviewer r, rating r, text' r) of
        (JStr u, JNum (Finite x), JStr t) \<Rightarrow>
          3 \<le> length u \<and> length u \<le> 20 \<and> list_all is_word u \<and>
          0 \<le> x \<and> x < 6 \<and> 5 \<le> split_count t \<and> t \<noteq> [] \<and> \<not> is_space (hd t)
      | _ \<Rightarrow> False)"

definition cleaned_text :: "review \<Rightarrow> review" where
  \<comment> \<open>the record with its text cleaned once more, as the payload carries it\<close>
  "cleaned_text r = (case text' r of JStr t \<Rightarrow> r\<lparr> text' := JStr (clean t) \<rparr> | _ \<Rightarrow> r)"

definition handed_ok :: "nat \<Rightarrow> review \<Rightarrow> bool" where
  \<comment> \<open>what the payload carries of a record parsed from rendered text; \<open>n\<close> is the longest
      reviewer\<close>
  "handed_ok n r =
     (case (reviewer r, rating r, text' r) of
        (JStr u, JNum (Finite x), JStr t) \<Rightarrow>
          3 \<le> length u \<and> length u \<le> n \<and> list_all is_word u \<and>
          0 \<le> x \<and> x < 6 \<and> t \<noteq> [] \<and> clean t = t
      | _ \<Rightarrow> False)"

definition show_tenths :: "real \<Rightarrow> string" where
  \<comment> \<open>the host's conversion of a number to a string on 0, 0.1, ... up to 9.9: the unit
      digit, then the point and the tenth unless that is 0\<close>
  "show_tenths x =
     (let n = nat \<lfloor>x * 10\<rfloor>
      in char_of (48 + n div 10) #
         (if n mod 10 = 0 then [] else [CHR ''.'', char_of (48 + n mod 10)]))"

section \<open>Inputs of the examples\<close>

definition alice :: jsval where
  "alice = JObj [(''username'', JStr ''alice99''), (''stars'', JStr ''4.7''),
                 (''comment'', JStr ''Great seller, fast shipping!'')]"

definition bare :: jsval where
  "bare = JObj [(''stars'', JStr ''five''), (''user'', JNum (Finite 7))]"

definition scored :: jsval where
  "scored = JObj [(''total_score'', JNum (Finite 5)), (''text'', JStr ''Great seller''),
                  (''user'', JStr ''alice99'')]"

definition tree :: jsval where
  "tree = JObj [(''data'', JObj [(''reviews'', JArr [alice])])]"

definition short_review :: jsval where
  "short_review = JObj [(''username'', JStr ''al''), (''rating'', JNum (Finite 9)),
                        (''text'', JStr ''ok'')]"

definition short_payload :: jsval where
  "short_payload = JObj [(''data'', JObj [(''reviews'', JArr [short_review])])]"

definition short_response :: response where
  "short_response =
     \<lparr> url = ''https://www.whatnot.com/services/graphql'',
       headers = [(''content-type'', ''application/json'')],
       status = 200,
       json = Some short_payload \<rparr>"

definition short_record :: review where
  "short_record = \<lparr> reviewer = JStr ''al'', rating = JNum (Finite 9), text' = JStr ''ok'' \<rparr>"

definition bob_block :: string where
  "bob_block = ''bob_the_builder 4.8 11/11/2025 Fast shipment and great packaging see more''"

definition bob_block_dated :: string where
  "bob_block_dated =
     ''bob_the_builder 11/11/2025 4.8 Fast shipment and great packaging see more''"

definition bob_record :: review where
  "bob_record = \<lparr> reviewer = JStr ''bob_the_builder'', rating = JNum (Finite 4.8),
        text' = JStr ''4.8 11/11/2025 Fast shipment and great packaging'' \<rparr>"

definition bob_card_record :: review where
  "bob_card_record = \<lparr> reviewer = JStr ''bob_the_builder'', rating = JNum (Finite 4.8),
        text' = JStr ''Fast shipment and great packaging'' \<rparr>"

definition alice_card :: string where
  "alice_card = ''alice99 10/02/2025 5.0 Great seller, fast shipping! Would buy again see more''"

definition alice_card_record :: review where
  "alice_card_record = \<lparr> reviewer = JStr ''alice99'', rating = JNum (Finite 5),
        text' = JStr ''Great seller, fast shipping! Would buy again'' \<rparr>"

definition see_more_anchor :: "string \<Rightarrow> anchor" where
  "see_more_anchor c = \<lparr> label = ''See more'', ancestors = [''See more'', c] \<rparr>"

definition demo_doc :: document where
  "demo_doc = \<lparr> anchors = [see_more_anchor bob_block_dated, see_more_anchor alice_card,
                             see_more_anchor bob_block_dated],
                 divs = [] \<rparr>"

definition terse_block :: string where
  "terse_block = ''a b c d see more 4.5 stars from some_user1''"

definition terse_page :: page where
  "terse_page = \<lparr> containers = [], body_divs = [terse_block] \<rparr>"

definition terse_record :: review where
  "terse_record = \<lparr> reviewer = JStr ''see'', rating = JNum (Finite 4.5),
                     text' = JStr ''a b c d '' \<rparr>"

definition spaced_block :: string where
  "spaced_block = ''user_1 4.5 see more see more see more see more see more x''"

definition spaced_record :: review where
  "spaced_record = \<lparr> reviewer = JStr ''user_1'', rating = JNum (Finite 4.5),
                      text' = JStr ''4.5      x'' \<rparr>"

definition spaced_handed :: review where
  "spaced_handed = \<lparr> reviewer = JStr ''user_1'', rating = JNum (Finite 4.5),
                      text' = JStr ''4.5 x'' \<rparr>"

definition stamp :: string where
  "stamp = ''2025-11-11T09:30:00.000Z''"

definition bar_first :: review where
  "bar_first = \<lparr> reviewer = JStr ''a|1'', rating = JNum (Finite 2), text' = JStr ''b'' \<rparr>"

definition bar_second :: review where
  "bar_second = \<lparr> reviewer = JStr ''a'', rating = JNum (Finite 1), text' = JStr ''2|b'' \<rparr>"

definition terse_handed :: review where
  "terse_handed = \<lparr> reviewer = JStr ''see'', rating = JNum (Finite 4.5),
                     text' = JStr ''a b c d'' \<rparr>"

definition padded :: jsval where
  "padded = JObj [(''username'', JStr ''  alice   99 ''), (''stars'', JStr ''five''),
                  (''comment'', JStr (CHR 0x09 # ''Great   seller'' @ [CHR 0x0A]))]"

definition padded_record :: review where
  "padded_record = \<lparr> reviewer = JStr ''alice 99'', rating = JNull,
                      text' = JStr ''Great seller'' \<rparr>"

section \<open>Properties\<close>

subsection \<open>Cleaning a string\<close>

lemma is_space_SP: "is_space (CHR '' '')"
  by (simp add: is_space_def)

lemma tidy_collapse: "tidy b (collapse b s)"
  by (induction s arbitrary: b) (simp_all add: is_space_SP)

lemma collapse_tidy: "tidy b s \<Longrightarrow> collapse b s = s"
  by (induction s arbitrary: b) (auto split: if_splits)

lemma tidy_weaken: "tidy b s \<Longrightarrow> tidy False s"
  by (cases s) (auto split: if_splits)

lemma tidy_dropWhile: "tidy b s \<Longrightarrow> tidy False (dropWhile is_space s)"
  by (induction s arbitrary: b) (auto split: if_splits intro: tidy_weaken)

lemma tidy_prefix: "tidy b (xs @ ys) \<Longrightarrow> tidy b xs"
  by (induction xs arbitrary: b) (auto split: if_splits)

lemma rev_drop_prefix: "rev (dropWhile P (rev u)) @ rev (takeWhile P (rev u)) = u"
proof -
  have "rev (dropWhile P (rev u)) @ rev (takeWhile P (rev u)) =
        rev (takeWhile P (rev u) @ dropWhile P (rev u))"
    by (simp only: rev_append)
  then show ?thesis by (simp only: takeWhile_dropWhile_id rev_rev_ident)
qed

lemma tidy_trim: "tidy b s \<Longrightarrow> tidy False (trim s)"
proof -
  assume "tidy b s"
  then have t: "tidy False (dropWhile is_space s)" by (rule tidy_dropWhile)
  have "tidy False (rev (dropWhile is_space (rev (dropWhile is_space s))) @
      rev (takeWhile is_space (rev (dropWhile is_space s))))"
    using t by (simp only: rev_drop_prefix)
  then show ?thesis unfolding trim_def by (rule tidy_prefix)
qed

lemma trim_no_lead: "dropWhile is_space (trim s) = trim s"
proof (cases "trim s")
  case Nil
  then show ?thesis by simp
next
  case (Cons c cs)
  let ?u = "dropWhile is_space s"
  have "trim s @ rev (takeWhile is_space (rev ?u)) = ?u"
    unfolding trim_def by (rule rev_drop_prefix)
  with Cons have u: "?u = c # (cs @ rev (takeWhile is_space (rev ?u)))" by simp
  obtain w where u': "?u = c # w" using u by blast
  have "?u \<noteq> [] \<Longrightarrow> \<not> is_space (hd ?u)" by (rule hd_dropWhile)
  then have "\<not> is_space c" unfolding u' by simp
  with Cons show ?thesis by simp
qed

lemma trim_trim: "trim (trim s) = trim s"
proof -
  have "dropWhile is_space (rev (trim s)) = rev (trim s)"
    unfolding trim_def by (simp add: dropWhile_idem)
  then show ?thesis by (simp add: trim_def[of "trim s"] trim_no_lead)
qed

lemma trim_hd: "trim s \<noteq> [] \<Longrightarrow> \<not> is_space (hd (trim s))"
proof -
  assume n: "trim s \<noteq> []"
  have d: "dropWhile is_space (trim s) = trim s" by (rule trim_no_lead)
  from n have "dropWhile is_space (trim s) \<noteq> []" by (simp add: d)
  then have "\<not> is_space (hd (dropWhile is_space (trim s)))" by (rule hd_dropWhile)
  then show ?thesis by (simp add: d)
qed

lemma clean_hd: "clean s \<noteq> [] \<Longrightarrow> \<not> is_space (hd (clean s))"
  unfolding clean_def by (rule trim_hd)

lemma tidy_clean: "tidy False (clean s)"
  unfolding clean_def by (rule tidy_trim[OF tidy_collapse])

lemma clean_clean: "clean (clean s) = clean s"
proof -
  have "collapse False (clean s) = clean s" by (rule collapse_tidy[OF tidy_clean])
  then show ?thesis by (simp add: clean_def[of "clean s"]) (simp add: clean_def trim_trim)
qed

lemma clean_Nil: "clean [] = []"
  by (simp add: clean_def trim_def)

lemma rtrim_Cons_nonspace: "\<not> is_space c \<Longrightarrow> rtrim (c # x) = c # rtrim x"
  by (simp add: rtrim_def dropWhile_append)

lemma rtrim_Cons_space:
  "is_space c \<Longrightarrow> rtrim (c # x) = (if rtrim x = [] then [] else c # rtrim x)"
  by (simp add: rtrim_def dropWhile_append)

lemma trim_rtrim: "trim s = rtrim (dropWhile is_space s)"
  by (simp add: trim_def rtrim_def)

lemma words_nonempty: "[] \<notin> set (space_words s)"
  by (induction s rule: space_words.induct) (auto split: list.splits if_splits)

lemma words_head: "\<not> is_space c \<Longrightarrow> space_words (c # cs) \<noteq> []"
  by (auto split: list.splits)

lemma join_empty: "[] \<notin> set ws \<Longrightarrow> join_spaced ws = [] \<longleftrightarrow> ws = []"
  by (induction ws rule: join_spaced.induct) auto

lemma join_Cons: "join_spaced (w # ws) = (if ws = [] then w else w @ CHR '' '' # join_spaced ws)"
  by (cases ws) simp_all

lemma collapse_True_no_lead: "dropWhile is_space (collapse True s) = collapse True s"
  by (induction s) simp_all

lemma collapse_words:
  "rtrim (dropWhile is_space (collapse b s)) = join_spaced (space_words s)"
proof (induction s arbitrary: b rule: space_words.induct)
  case 1
  show ?case by (simp add: rtrim_def)
next
  case (2 c cs)
  show ?case
  proof (cases "is_space c")
    case True
    with "2.IH"(1)[of True] show ?thesis by (simp add: is_space_SP)
  next
    case False
    show ?thesis
    proof (cases cs)
      case Nil
      with False show ?thesis by (simp add: rtrim_def)
    next
      case (Cons d ds)
      show ?thesis
      proof (cases "is_space d")
        case True
        from "2.IH"(2)[OF False Cons True, of False] True Cons
        have ih: "rtrim (collapse True ds) = join_spaced (space_words cs)"
          by (simp add: is_space_SP collapse_True_no_lead)
        have "rtrim (dropWhile is_space (collapse b (c # cs))) =
            c # rtrim (CHR '' '' # collapse True ds)"
          using False True Cons by (simp add: rtrim_Cons_nonspace)
        also have "\<dots> = c # (if rtrim (collapse True ds) = [] then []
            else CHR '' '' # rtrim (collapse True ds))"
          by (simp add: rtrim_Cons_space is_space_SP)
        also have "\<dots> = join_spaced ([c] # space_words cs)"
          using join_empty[OF words_nonempty, of cs] by (simp add: ih join_Cons)
        finally show ?thesis using False True Cons by simp
      next
        case nd: False
        from words_head[OF nd, of ds] Cons obtain w ws where w: "space_words cs = w # ws"
          by (cases "space_words cs") auto
        from "2.IH"(3)[OF False Cons nd, of False] nd Cons
        have ih: "rtrim (collapse False cs) = join_spaced (space_words cs)" by simp
        have "rtrim (dropWhile is_space (collapse b (c # cs))) = c # rtrim (collapse False cs)"
          using False by (simp add: rtrim_Cons_nonspace)
        also have "\<dots> = c # join_spaced (w # ws)" by (simp add: ih w)
        also have "\<dots> = join_spaced ((c # w) # ws)" by (simp add: join_Cons)
        finally show ?thesis using False nd Cons w by simp
      qed
    qed
  qed
qed

lemma clean_words: "clean s = join_spaced (space_words s)"
  by (simp add: clean_def trim_rtrim collapse_words)

lemma clean_nonempty: "t \<noteq> [] \<Longrightarrow> \<not> is_space (hd t) \<Longrightarrow> clean t \<noteq> []"
proof -
  assume "t \<noteq> []" and h: "\<not> is_space (hd t)"
  then obtain c cs where t: "t = c # cs" by (cases t) auto
  with h have "space_words t \<noteq> []" using words_head[of c cs] by simp
  with join_empty[OF words_nonempty, of t] show ?thesis by (simp add: clean_words)
qed

lemma collapse_no_space: "\<forall>c\<in>set u. \<not> is_space c \<Longrightarrow> collapse b u = u"
  by (induction u arbitrary: b) simp_all

lemma dropWhile_no_space: "\<forall>c\<in>set u. \<not> is_space c \<Longrightarrow> dropWhile is_space u = u"
  by (cases u) simp_all

lemma trim_no_space: "\<forall>c\<in>set u. \<not> is_space c \<Longrightarrow> trim u = u"
  using dropWhile_no_space[of "rev u"] dropWhile_no_space[of u] by (simp add: trim_def)

lemma word_not_space: "is_word c \<Longrightarrow> \<not> is_space c"
  by (auto simp: is_word_def is_space_def Let_def)

lemma clean_word_string: "list_all is_word u \<Longrightarrow> clean u = u"
proof -
  assume "list_all is_word u"
  then have "\<forall>c\<in>set u. \<not> is_space c" by (auto simp: list_all_iff word_not_space)
  then show ?thesis by (simp add: clean_def collapse_no_space trim_no_space)
qed

lemma words_no_space: "\<forall>w\<in>set (space_words s). \<forall>c\<in>set w. \<not> is_space c"
proof (induction s rule: space_words.induct)
  case 1
  show ?case by simp
next
  case (2 c cs)
  show ?case
  proof (cases "is_space c")
    case True
    with "2.IH"(1) show ?thesis by simp
  next
    case False
    show ?thesis
    proof (cases cs)
      case Nil
      with False show ?thesis by simp
    next
      case (Cons d ds)
      show ?thesis
      proof (cases "is_space d")
        case True
        from "2.IH"(2)[OF False Cons True] False True Cons show ?thesis by simp
      next
        case nd: False
        from "2.IH"(3)[OF False Cons nd] False nd Cons show ?thesis
          by (cases "space_words cs") simp_all
      qed
    qed
  qed
qed

lemma words_concat: "concat (space_words s) = filter (\<lambda>c. \<not> is_space c) s"
proof (induction s rule: space_words.induct)
  case 1
  show ?case by simp
next
  case (2 c cs)
  show ?case
  proof (cases "is_space c")
    case True
    with "2.IH"(1) show ?thesis by simp
  next
    case False
    show ?thesis
    proof (cases cs)
      case Nil
      with False show ?thesis by simp
    next
      case (Cons d ds)
      show ?thesis
      proof (cases "is_space d")
        case True
        from "2.IH"(2)[OF False Cons True] False True Cons show ?thesis by simp
      next
        case nd: False
        from words_head[OF nd, of ds] Cons obtain w ws where w: "space_words cs = w # ws"
          by (cases "space_words cs") auto
        from "2.IH"(3)[OF False Cons nd] False nd Cons w show ?thesis by simp
      qed
    qed
  qed
qed

subsection \<open>The structural scanner\<close>

lemma scan_eq:
  "findReviewItemsDeep v found = found @ concat (map (filter review_like) (arrays_of v))"
  "visit_items xs found = found @ concat (map (filter review_like) (arrays_of_items xs))"
  "visit_values kvs found = found @ concat (map (filter review_like) (arrays_of_values kvs))"
  by (induction v found and xs found and kvs found
      rule: findReviewItemsDeep_visit_items_visit_values.induct) simp_all

lemma starts_with_refl: "starts_with p (p @ s)"
  by (induction p) simp_all

lemma str_includes_self: "p \<noteq> [] \<Longrightarrow> str_includes p p"
  using starts_with_refl[of p "[]"] by (cases p) simp_all

lemma hasRating_iff:
  "hasRating keys \<longleftrightarrow>
     (\<exists>k\<in>set keys. k = ''stars'' \<or> k = ''score'' \<or> str_includes k ''rating'')"
  unfolding hasRating_def list_ex_iff
  using str_includes_self[of "''rating''"] by blast

lemma hasText_iff:
  "hasText keys \<longleftrightarrow>
     (\<exists>k\<in>set keys. k = ''review'' \<or> str_includes k ''comment'' \<or> str_includes k ''message'' \<or>
        str_includes k ''text'')"
  unfolding hasText_def list_ex_iff
  using str_includes_self[of "''text''"] str_includes_self[of "''message''"]
    str_includes_self[of "''comment''"] by blast

lemma includes_user: "str_includes ''username'' ''user''"
  by simp

lemma hasUser_iff:
  "hasUser keys \<longleftrightarrow>
     (\<exists>k\<in>set keys. k = ''reviewer'' \<or> str_includes k ''user'' \<or> str_includes k ''buyer'')"
  unfolding hasUser_def list_ex_iff
  using str_includes_self[of "''user''"] str_includes_self[of "''buyer''"] includes_user by blast

lemma review_like_not_nullish: "review_like v \<Longrightarrow> \<not> nullish v"
  by (cases v) simp_all

lemma scan_not_nullish: "\<forall>it\<in>set (findReviewItemsDeep v []). \<not> nullish it"
  by (auto simp: scan_eq(1) review_like_not_nullish)

subsection \<open>The deduplicator\<close>

lemma dedupe_keys:
  "distinct (map (review_key ns) (dedupe ns seen xs)) \<and>
   set (map (review_key ns) (dedupe ns seen xs)) \<inter> set seen = {}"
proof (induction xs arbitrary: seen)
  case Nil
  show ?case by simp
next
  case (Cons r rs)
  show ?case
  proof (cases "review_key ns r \<in> set seen")
    case True
    with Cons[of seen] show ?thesis by simp
  next
    case False
    with Cons[of "review_key ns r # seen"] show ?thesis by auto
  qed
qed

lemma dedupe_key_set:
  "set (map (review_key ns) (dedupe ns seen xs)) = set (map (review_key ns) xs) - set seen"
  by (induction xs arbitrary: seen) auto

lemma dedupe_fixed:
  "distinct (map (review_key ns) ys) \<Longrightarrow> set (map (review_key ns) ys) \<inter> set seen = {} \<Longrightarrow>
   dedupe ns seen ys = ys"
  by (induction ys arbitrary: seen) auto

lemma dedupe_idem: "dedupe ns [] (dedupe ns [] xs) = dedupe ns [] xs"
  using dedupe_keys[of ns "[]" xs] by (intro dedupe_fixed) simp_all

lemma dedupe_subset: "set (dedupe ns seen xs) \<subseteq> set xs"
  by (induction xs arbitrary: seen) auto

lemma uniq_loop_eq:
  "length uniq < max 1 limit \<Longrightarrow>
   uniq_loop ns limit seen uniq xs = uniq @ take (max 1 limit - length uniq) (dedupe ns seen xs)"
proof (induction xs arbitrary: seen uniq)
  case Nil
  show ?case by simp
next
  case (Cons r rs)
  show ?case
  proof (cases "review_key ns r \<in> set seen")
    case True
    with Cons show ?thesis by simp
  next
    case False
    show ?thesis
    proof (cases "length (uniq @ [r]) \<ge> limit")
      case True
      with Cons.prems have "max 1 limit - length uniq = 1" by (cases limit) auto
      with False True show ?thesis by simp
    next
      case f: False
      then have lt: "length (uniq @ [r]) < max 1 limit" by simp
      have "max 1 limit - length uniq = Suc (max 1 limit - length (uniq @ [r]))"
        using lt by simp
      with False f Cons.IH[OF lt, of "review_key ns r # seen"] show ?thesis by simp
    qed
  qed
qed

lemma dedupe_cards_eq: "dedupe_cards ns limit xs = take limit (dedupe ns [] xs)"
proof -
  have "uniq_loop ns limit [] [] xs = take (max 1 limit) (dedupe ns [] xs)"
    using uniq_loop_eq[of "[]" limit ns "[]" xs] by simp
  then show ?thesis by (simp add: dedupe_cards_def min_def)
qed

lemma dedupe_take: "dedupe ns [] (take n (dedupe ns [] xs)) = take n (dedupe ns [] xs)"
proof (rule dedupe_fixed)
  have "distinct (map (review_key ns) (dedupe ns [] xs))" using dedupe_keys[of ns "[]" xs] by simp
  then show "distinct (map (review_key ns) (take n (dedupe ns [] xs)))"
    by (simp add: take_map[symmetric] distinct_take)
qed simp

lemma dedupe_snoc:
  "dedupe ns seen (xs @ [x]) =
     dedupe ns seen xs @
       (if review_key ns x \<in> set seen \<union> review_key ns ` set xs then [] else [x])"
  by (induction xs arbitrary: seen) auto

subsection \<open>Rating tokens and their values\<close>

lemma parseFloat_4_7: "parseFloat ''4.7'' = Finite 4.7"
  by (simp add: parseFloat_def is_space_def is_digit_def digits_val_def digit_val_def
      exponent_part_def scale10_def Let_def)

lemma digit_not_space: "is_digit a \<Longrightarrow> \<not> is_space a"
  by (auto simp: is_digit_def is_space_def Let_def)

lemma digit_neq:
  "is_digit a \<Longrightarrow> CHR ''-'' \<noteq> a \<and> CHR ''+'' \<noteq> a \<and> CHR ''I'' \<noteq> a \<and> CHR ''.'' \<noteq> a"
  by (auto simp: is_digit_def Let_def)

lemma dot_not_digit: "\<not> is_digit (CHR ''.'')"
  by (simp add: is_digit_def Let_def)

lemma parseFloat_tenth:
  assumes "is_digit a" "is_digit c"
  shows "parseFloat [a, CHR ''.'', c] = Finite (real (digit_val a) + real (digit_val c) / 10)"
  using assms digit_not_space[OF assms(1)] digit_neq[OF assms(1)]
  by (simp add: parseFloat_def dot_not_digit digits_val_def exponent_part_def scale10_def
      Let_def add_divide_distrib)

lemma rating_here_shape:
  "rating_here s \<Longrightarrow>
   \<exists>a c. take 3 s = [a, CHR ''.'', c] \<and> is_digit a \<and> of_char a \<le> (53::nat) \<and> is_digit c"
  by (auto simp: rating_here_def split: list.splits)

lemma rating_scan_shape:
  "rating_scan pw t = Some m \<Longrightarrow>
   \<exists>a c. m = [a, CHR ''.'', c] \<and> is_digit a \<and> of_char a \<le> (53::nat) \<and> is_digit c"
proof (induction t arbitrary: pw)
  case Nil
  then show ?case by simp
next
  case (Cons x t)
  show ?case
  proof (cases "\<not> pw \<and> rating_here (x # t)")
    case True
    with Cons.prems have "m = take 3 (x # t)" by simp
    with rating_here_shape[of "x # t"] True show ?thesis by metis
  next
    case False
    with Cons.prems have "rating_scan (is_word x) t = Some m" by auto
    then show ?thesis by (rule Cons.IH)
  qed
qed

lemma rating_match_value:
  assumes "rating_match t = Some m"
  shows "\<exists>x. parseFloat m = Finite x \<and> x \<in> rating_values"
proof -
  from assms obtain a c where m: "m = [a, CHR ''.'', c]"
    and a: "is_digit a" "of_char a \<le> (53::nat)" and c: "is_digit c"
    unfolding rating_match_def using rating_scan_shape by blast
  have "digit_val a \<le> 5" using a by (simp add: digit_val_def)
  moreover have "digit_val c \<le> 9" using c by (auto simp: digit_val_def is_digit_def Let_def)
  ultimately have "real (digit_val a) + real (digit_val c) / 10 \<in> rating_values"
    unfolding rating_values_def by blast
  with parseFloat_tenth[OF a(1) c] m show ?thesis by simp
qed

lemma rating_values_bounds: "x \<in> rating_values \<Longrightarrow> 0 \<le> x \<and> x < 6"
  by (auto simp: rating_values_def)

subsection \<open>What the strategies let through\<close>

lemma rating_of_cases: "rating_of item = JNull \<or> (\<exists>n. rating_of item = JNum n \<and> n \<noteq> NaN)"
proof -
  define r0 where "r0 = coalesce (get item [''rating'', ''stars'', ''score''])
                        (get item [''starRating'', ''star_rating'', ''reviewRating''])"
  have "rating_of item = (case (case r0 of JStr s \<Rightarrow> JNum (parseFloat s) | v \<Rightarrow> v) of
       JNum n \<Rightarrow> (if n = NaN then JNull else JNum n) | v \<Rightarrow> JNull)"
    by (simp only: rating_of_def Let_def r0_def)
  then show ?thesis by (cases r0) simp_all
qed

lemma normalizeReview_gating:
  assumes "normalizeReview it = Inr r"
    and "\<not> (\<not> truthy (reviewer r) \<or> \<not> truthy (text' r) \<or> nullish (rating r))"
  shows "gated r"
proof -
  from assms(1) have nn: "\<not> nullish it" by (auto simp: normalizeReview_def split: if_splits)
  with assms(1) have r: "r = \<lparr> reviewer = JStr (clean (string_or_empty (reviewer_of it))),
      rating = rating_of it, text' = JStr (clean (string_or_empty (text_of it))) \<rparr>"
    by (simp add: normalizeReview_def)
  from rating_of_cases[of it] assms(2) r obtain n where "rating_of it = JNum n" "n \<noteq> NaN"
    by auto
  with assms(2) r show ?thesis by (simp add: gated_def clean_clean)
qed

lemma extract_items_inv:
  assumes "\<forall>it\<in>set its. \<not> nullish it" "\<forall>r\<in>set ex. gated r"
  shows "\<exists>ex'. extract_items ns its ex = Inr ex' \<and> (\<forall>r\<in>set ex'. gated r)"
  using assms
proof (induction its arbitrary: ex)
  case Nil
  then show ?case by simp
next
  case (Cons it its)
  from Cons.prems(1) have "\<not> nullish it" by simp
  then obtain r where r: "normalizeReview it = Inr r" by (simp add: normalizeReview_def)
  from Cons.prems(1) have rest: "\<forall>it\<in>set its. \<not> nullish it" by simp
  show ?case
  proof (cases "\<not> truthy (reviewer r) \<or> \<not> truthy (text' r) \<or> nullish (rating r)")
    case True
    with r Cons.IH[OF rest Cons.prems(2)] show ?thesis by simp
  next
    case False
    with r have g: "gated r" by (rule normalizeReview_gating)
    with Cons.prems(2) have ex': "\<forall>x\<in>set (ex @ [r]). gated x" by simp
    show ?thesis
    proof (cases "is_noise_net ns (text' r)")
      case True
      with r False Cons.IH[OF rest Cons.prems(2)] show ?thesis by simp
    next
      case n: False
      show ?thesis
      proof (cases "length (ex @ [r]) > 50")
        case True
        with r False n ex' show ?thesis by simp
      next
        case l: False
        with r False n Cons.IH[OF rest ex'] show ?thesis by simp
      qed
    qed
  qed
qed

lemma extract_network_inv:
  assumes "\<forall>r\<in>set ex. gated r"
  shows "\<exists>ex'. extract_network ns cs ex = Inr ex' \<and> (\<forall>r\<in>set ex'. gated r)"
  using assms
proof (induction cs arbitrary: ex)
  case Nil
  then show ?case by simp
next
  case (Cons c cs)
  from extract_items_inv[OF scan_not_nullish Cons.prems, of ns "snd c"]
  obtain ex1 where e: "extract_items ns (findReviewItemsDeep (snd c) []) ex = Inr ex1"
    and g: "\<forall>r\<in>set ex1. gated r" by blast
  show ?case
  proof (cases "length ex1 > 50")
    case True
    with e g show ?thesis by simp
  next
    case False
    with e Cons.IH[OF g] show ?thesis by simp
  qed
qed

lemma user_match_shape:
  "user_match t = Some u \<Longrightarrow> 3 \<le> length u \<and> length u \<le> 25 \<and> list_all is_word u"
  by (auto simp: user_match_def Let_def list_all_iff split: if_splits dest: set_takeWhileD)

lemma dom_loop_inv:
  "\<forall>r\<in>set out. parsed_ok r \<Longrightarrow> \<forall>r\<in>set (dom_loop limit ts out). parsed_ok r"
proof (induction ts arbitrary: out)
  case Nil
  then show ?case by simp
next
  case (Cons t ts)
  show ?case
  proof (cases "is_noise_dom t")
    case True
    with Cons show ?thesis by simp
  next
    case False
    show ?thesis
    proof (cases "rating_match t")
      case None
      with False Cons show ?thesis by simp
    next
      case (Some rm)
      show ?thesis
      proof (cases "user_match t")
        case None
        with False Some Cons show ?thesis by simp
      next
        case um: (Some um)
        define body where "body = trim (strip_user um (trim (remove_see_more 0 t)))"
        show ?thesis
        proof (cases "length body < 10")
          case True
          with False Some um Cons show ?thesis by (simp add: body_def)
        next
          case lb: False
          define r where "r = \<lparr> reviewer = JStr um, rating = JNum (parseFloat rm), text' = JStr body \<rparr>"
          from rating_match_value[OF Some] obtain x where x: "parseFloat rm = Finite x" "x \<in> rating_values"
            by blast
          from lb have "body \<noteq> []" by auto
          then have "\<not> is_space (hd body)" unfolding body_def by (rule trim_hd)
          then have "parsed_ok r"
            using user_match_shape[OF um] x rating_values_bounds[OF x(2)] lb
            by (simp add: parsed_ok_def r_def)
          with Cons.prems have o: "\<forall>x\<in>set (out @ [r]). parsed_ok x" by simp
          have "dom_loop limit (t # ts) out =
              (if length (out @ [r]) \<ge> limit then out @ [r] else dom_loop limit ts (out @ [r]))"
            using False Some um lb by (simp add: body_def r_def Let_def)
          with o Cons.IH[OF o] show ?thesis by simp
        qed
      qed
    qed
  qed
qed

lemma dom_fallback_inv: "\<forall>r\<in>set (dom_fallback limit ds). parsed_ok r"
proof -
  have "\<forall>r\<in>set (dom_loop limit (filter (\<lambda>t. length t > 40 \<and> length t < 500) (map clean ds)) []). parsed_ok r"
    by (rule dom_loop_inv) simp
  then show ?thesis by (auto simp: dom_fallback_def dest: in_set_takeD)
qed

lemma parse_card_shape:
  assumes "parse_card c = Some r"
  shows "\<exists>u x t. r = \<lparr> reviewer = JStr u, rating = JNum (Finite x), text' = JStr t \<rparr> \<and>
           3 \<le> length u \<and> length u \<le> 25 \<and> list_all is_word u \<and> x \<in> rating_values \<and>
           10 \<le> length t \<and> \<not> is_space (hd t)"
proof -
  define raw where "raw = clean c"
  from assms have g: "getRating raw \<noteq> JNull"
    by (auto simp: parse_card_def Let_def raw_def split: if_splits)
  then obtain m where m: "rating_match raw = Some m" "getRating raw = JNum (parseFloat m)"
    by (auto simp: getRating_def split: option.splits)
  from rating_match_value[OF m(1)] obtain x where x: "parseFloat m = Finite x" "x \<in> rating_values"
    by blast
  from assms g obtain u where u: "user_match raw = Some u"
    by (auto simp: parse_card_def Let_def raw_def getReviewer_def split: if_splits option.splits)
  define body where
    "body = trim (strip_rating (trim (strip_date (trim (strip_user u
              (trim (remove_see_more 0 raw)))))))"
  from assms g u have b: "10 \<le> length body \<and>
      r = \<lparr> reviewer = JStr u, rating = getRating raw, text' = JStr body \<rparr>"
    by (auto simp: parse_card_def Let_def raw_def body_def getReviewer_def split: if_splits)
  then have "body \<noteq> []" by auto
  then have "\<not> is_space (hd body)" unfolding body_def by (rule trim_hd)
  with b m x user_match_shape[OF u] show ?thesis by simp
qed

lemma parse_card_ok: "parse_card c = Some r \<Longrightarrow> parsed_ok r"
  using parse_card_shape[of c r] rating_values_bounds by (auto simp: parsed_ok_def)

lemma parse_loop_inv:
  "\<forall>r\<in>set out. parsed_ok r \<Longrightarrow> \<forall>r\<in>set (parse_loop limit cs out). parsed_ok r"
proof (induction cs arbitrary: out)
  case Nil
  then show ?case by simp
next
  case (Cons c cs)
  show ?case
  proof (cases "parse_card c")
    case None
    with Cons show ?thesis by simp
  next
    case (Some r)
    with Cons.prems have o: "\<forall>x\<in>set (out @ [r]). parsed_ok x" by (simp add: parse_card_ok)
    from Some have "parse_loop limit (c # cs) out =
        (if length (out @ [r]) \<ge> limit * 3 then out @ [r] else parse_loop limit cs (out @ [r]))"
      by simp
    with o Cons.IH[OF o] show ?thesis by simp
  qed
qed

lemma evaluate_inv: "\<forall>r\<in>set (evaluate ns limit doc). parsed_ok r"
proof -
  have "set (evaluate ns limit doc) \<subseteq> set (parse_loop limit (candidateCards doc) [])"
    using dedupe_subset[of ns "[]"] by (auto simp: evaluate_def dedupe_cards_eq dest: in_set_takeD)
  moreover have "\<forall>r\<in>set (parse_loop limit (candidateCards doc) []). parsed_ok r"
    by (rule parse_loop_inv) simp
  ultimately show ?thesis by blast
qed

lemma evaluate_length: "length (evaluate ns limit doc) \<le> limit"
  by (simp add: evaluate_def dedupe_cards_def)

lemma word_run_scan_shape:
  "list_all is_word run \<Longrightarrow> word_run_scan run s = Some u \<Longrightarrow>
   3 \<le> length u \<and> length u \<le> 20 \<and> list_all is_word u"
proof (induction s arbitrary: run)
  case Nil
  then show ?case by (auto simp: list_all_iff split: if_splits)
next
  case (Cons c cs)
  show ?case
  proof (cases "is_word c")
    case True
    with Cons.prems have "list_all is_word (c # run)" "word_run_scan (c # run) cs = Some u"
      by simp_all
    then show ?thesis by (rule Cons.IH)
  next
    case False
    show ?thesis
    proof (cases "3 \<le> length run \<and> length run \<le> 20")
      case True
      with False Cons.prems show ?thesis by (auto simp: list_all_iff)
    next
      case f: False
      with False Cons.prems have "word_run_scan [] cs = Some u" by auto
      with Cons.IH[of "[]"] show ?thesis by simp
    qed
  qed
qed

lemma before_see_more_hd:
  assumes "t \<noteq> []"
  shows "before_see_more t \<noteq> [] \<and> hd (before_see_more t) = hd t"
proof (cases "index_from 0 (toLowerCase t) ''see more''")
  case None
  with assms show ?thesis by (simp add: before_see_more_def)
next
  case (Some idx)
  show ?thesis
  proof (cases idx)
    case 0
    with Some assms show ?thesis by (simp add: before_see_more_def)
  next
    case (Suc k)
    from assms obtain c cs where "t = c # cs" by (cases t) auto
    with Some Suc show ?thesis by (simp add: before_see_more_def)
  qed
qed

lemma simple_loop_inv:
  "\<forall>r\<in>set out. simple_ok r \<Longrightarrow> \<forall>t\<in>set ts. t \<noteq> [] \<and> \<not> is_space (hd t) \<Longrightarrow>
   \<forall>r\<in>set (simple_loop limit ts out). simple_ok r"
proof (induction ts arbitrary: out)
  case Nil
  then show ?case by simp
next
  case (Cons t ts)
  from Cons.prems(2) have rest: "\<forall>t\<in>set ts. t \<noteq> [] \<and> \<not> is_space (hd t)" by simp
  from Cons.prems(2) have "t \<noteq> []" "\<not> is_space (hd t)" by simp_all
  with before_see_more_hd[of t]
  have bh: "before_see_more t \<noteq> []" "\<not> is_space (hd (before_see_more t))" by simp_all
  note IH = Cons.IH[OF _ rest]
  show ?case
  proof (cases "rating_match t")
    case None
    with IH[OF Cons.prems(1)] show ?thesis by simp
  next
    case (Some rm)
    show ?thesis
    proof (cases "reviewer_match t")
      case None
      with Some IH[OF Cons.prems(1)] show ?thesis by simp
    next
      case um: (Some um)
      show ?thesis
      proof (cases "split_count (before_see_more t) < 5")
        case True
        with Some um IH[OF Cons.prems(1)] show ?thesis by simp
      next
        case False
        define r where "r = \<lparr> reviewer = JStr um, rating = JNum (parseFloat rm),
                                text' = JStr (before_see_more t) \<rparr>"
        from rating_match_value[OF Some] obtain x where x: "parseFloat rm = Finite x" "x \<in> rating_values"
          by blast
        have "simple_ok r"
          using word_run_scan_shape[of "[]" t um] um x rating_values_bounds[OF x(2)] False bh
          by (simp add: simple_ok_def r_def reviewer_match_def)
        with Cons.prems(1) have o: "\<forall>x\<in>set (out @ [r]). simple_ok x" by simp
        have "simple_loop limit (t # ts) out =
            (if length (out @ [r]) \<ge> limit * 3 then out @ [r] else simple_loop limit ts (out @ [r]))"
          using False Some um by (simp add: r_def)
        with o IH[OF o] show ?thesis by simp
      qed
    qed
  qed
qed

lemma evaluate_simple_inv: "\<forall>r\<in>set (evaluate_simple ns limit pg). simple_ok r"
proof -
  let ?out = "simple_loop limit
          (filter (\<lambda>t. length t > 20 \<and> length t < 900) (map clean (root_divs pg))) []"
  have "set (evaluate_simple ns limit pg) \<subseteq> set ?out"
    using dedupe_subset[of ns "[]"] by (auto simp: evaluate_simple_def dedupe_cards_eq dest: in_set_takeD)
  moreover have "\<forall>r\<in>set ?out. simple_ok r"
  proof (rule simple_loop_inv)
    show "\<forall>r\<in>set []. simple_ok r" by simp
    show "\<forall>t\<in>set (filter (\<lambda>t. length t > 20 \<and> length t < 900) (map clean (root_divs pg))).
            t \<noteq> [] \<and> \<not> is_space (hd t)"
    proof
      fix t
      assume "t \<in> set (filter (\<lambda>t. length t > 20 \<and> length t < 900) (map clean (root_divs pg)))"
      then obtain d where "t = clean d" "length t > 20" by auto
      then have "clean d \<noteq> []" by auto
      from this clean_hd[OF this] \<open>t = clean d\<close> show "t \<noteq> [] \<and> \<not> is_space (hd t)" by simp
    qed
  qed
  ultimately show ?thesis by blast
qed

lemma evaluate_simple_length: "length (evaluate_simple ns limit pg) \<le> limit"
  by (simp add: evaluate_simple_def dedupe_cards_def)

subsection \<open>Every run ends with a payload\<close>

lemma run_empty_net:
  "run_extraction ns limit [] ds = Inr ([Network, Dom], take limit (dom_fallback limit ds))"
  by (simp add: run_extraction_def)

lemma run_cases:
  "\<exists>net. extract_network ns (foldl on_response [] responses) [] = Inr net \<and>
     (\<forall>r\<in>set net. gated r) \<and>
     run_extraction ns limit responses ds =
       (if dedupe ns [] net = [] then Inr ([Network, Dom], take limit (dom_fallback limit ds))
        else Inr ([Network], take limit (dedupe ns [] net)))"
proof -
  from extract_network_inv[of "[]" ns "foldl on_response [] responses"]
  obtain net where n: "extract_network ns (foldl on_response [] responses) [] = Inr net"
    and g: "\<forall>r\<in>set net. gated r" by auto
  then show ?thesis by (auto simp: run_extraction_def Let_def)
qed

lemma gated_serialize: "gated r \<Longrightarrow> \<exists>r'. serialize r = Inr r'"
  by (auto simp: gated_def serialize_def clean_val_def split: jsval.splits)

lemma parsed_serialize: "parsed_ok r \<Longrightarrow> \<exists>r'. serialize r = Inr r'"
  by (auto simp: parsed_ok_def serialize_def clean_val_def split: jsval.splits number.splits)

lemma serialize_all_ok:
  "\<forall>r\<in>set revs. \<exists>r'. serialize r = Inr r' \<Longrightarrow>
   \<exists>out. serialize_all revs = Inr out \<and> length out = length revs"
proof (induction revs)
  case Nil
  show ?case by simp
next
  case (Cons r revs)
  then obtain r' out where "serialize r = Inr r'" "serialize_all revs = Inr out" "length out = length revs"
    by auto
  then show ?case by simp
qed

lemma run_records:
  assumes "run_extraction ns limit responses ds = Inr (tried, revs)" "r \<in> set revs"
  shows "(tried = [Network] \<longrightarrow> gated r) \<and> (tried = [Network, Dom] \<longrightarrow> parsed_ok r)"
proof -
  from run_cases[of ns responses limit ds] obtain net where
    g: "\<forall>r\<in>set net. gated r" and
    run: "run_extraction ns limit responses ds =
       (if dedupe ns [] net = [] then Inr ([Network, Dom], take limit (dom_fallback limit ds))
        else Inr ([Network], take limit (dedupe ns [] net)))" by blast
  show ?thesis
  proof (cases "dedupe ns [] net = []")
    case True
    with run assms have "tried = [Network, Dom]" "r \<in> set (take limit (dom_fallback limit ds))" by auto
    then show ?thesis using dom_fallback_inv[of limit ds] by (auto dest: in_set_takeD)
  next
    case False
    with run assms have "tried = [Network]" "r \<in> set (take limit (dedupe ns [] net))" by auto
    then have "r \<in> set net" using dedupe_subset[of ns "[]" net] by (auto dest: in_set_takeD)
    with g \<open>tried = [Network]\<close> show ?thesis by simp
  qed
qed

lemma main_total:
  "\<exists>tried revs out. run_extraction ns limit responses ds = Inr (tried, revs) \<and>
     length revs \<le> limit \<and> serialize_all revs = Inr out \<and> length out = length revs \<and>
     main ns limit now responses ds =
       Inr \<lparr> source = ''whatnot'', profile_url = TARGET_URL, fetched_at = now,
             count = length revs, reviews = out \<rparr>"
proof -
  from run_cases[of ns responses limit ds] obtain tried revs where
    run: "run_extraction ns limit responses ds = Inr (tried, revs)" and len: "length revs \<le> limit"
    by (auto split: if_splits)
  have "\<forall>r\<in>set revs. \<exists>r'. serialize r = Inr r'"
    using run_records[OF run] run_cases[of ns responses limit ds] run
    by (auto split: if_splits intro: gated_serialize parsed_serialize)
  from serialize_all_ok[OF this] obtain out where o: "serialize_all revs = Inr out" "length out = length revs"
    by blast
  with run len show ?thesis by (simp add: main_def)
qed

lemma main_dom_total:
  "\<exists>out. serialize_all (evaluate ns limit doc) = Inr out \<and>
     length out = length (evaluate ns limit doc) \<and>
     main_dom ns limit now doc =
       Inr \<lparr> source = ''whatnot'', profile_url = TARGET_URL, fetched_at = now,
             count = length (evaluate ns limit doc), reviews = out \<rparr>"
proof -
  have "\<forall>r\<in>set (evaluate ns limit doc). \<exists>r'. serialize r = Inr r'"
    using evaluate_inv[of ns limit doc] by (auto intro: parsed_serialize)
  from serialize_all_ok[OF this] obtain out where
    "serialize_all (evaluate ns limit doc) = Inr out" "length out = length (evaluate ns limit doc)"
    by blast
  then show ?thesis by (simp add: main_dom_def)
qed

lemma simple_serialize: "simple_ok r \<Longrightarrow> \<exists>r'. serialize_simple r = Inr r'"
  by (auto simp: simple_ok_def serialize_simple_def clean_val_def split: jsval.splits number.splits)

lemma serialize_all_simple_ok:
  "\<forall>r\<in>set revs. \<exists>r'. serialize_simple r = Inr r' \<Longrightarrow>
   \<exists>out. serialize_all_simple revs = Inr out \<and> length out = length revs"
proof (induction revs)
  case Nil
  show ?case by simp
next
  case (Cons r revs)
  then obtain r' out where "serialize_simple r = Inr r'" "serialize_all_simple revs = Inr out"
    "length out = length revs"
    by auto
  then show ?case by simp
qed

lemma main_simple_total:
  "\<exists>out. serialize_all_simple (evaluate_simple ns limit pg) = Inr out \<and>
     length out = length (evaluate_simple ns limit pg) \<and>
     main_simple ns limit now pg =
       Inr \<lparr> source = ''whatnot'', profile_url = TARGET_URL, fetched_at = now,
             count = length (evaluate_simple ns limit pg), reviews = out \<rparr>"
proof -
  have "\<forall>r\<in>set (evaluate_simple ns limit pg). \<exists>r'. serialize_simple r = Inr r'"
    using evaluate_simple_inv[of ns limit pg] by (auto intro: simple_serialize)
  from serialize_all_simple_ok[OF this] obtain out where
    "serialize_all_simple (evaluate_simple ns limit pg) = Inr out"
    "length out = length (evaluate_simple ns limit pg)"
    by blast
  then show ?thesis by (simp add: main_simple_def)
qed

lemma clean_val_str: "clean_val (JStr s) = Inr (clean s)"
  by (cases s) (simp_all add: clean_val_def)

lemma gated_serialize_eq:
  assumes "gated r"
  shows "serialize r = Inr r"
proof -
  from assms obtain u where u: "reviewer r = JStr u"
    by (cases "reviewer r") (simp_all add: gated_def)
  from assms u obtain n where n: "rating r = JNum n"
    by (cases "rating r") (simp_all add: gated_def)
  from assms u n obtain t where t: "text' r = JStr t"
    by (cases "text' r") (simp_all add: gated_def)
  from assms have "clean u = u" "clean t = t" by (simp_all add: gated_def u n t)
  then have "serialize r = Inr \<lparr> reviewer = reviewer r, rating = rating r, text' = text' r \<rparr>"
    by (simp add: serialize_def clean_val_str serialize_rating_def u n t)
  then show ?thesis by simp
qed

lemma parsed_serialize_eq:
  assumes "parsed_ok r"
  shows "serialize r = Inr (cleaned_text r) \<and> handed_ok 25 (cleaned_text r)"
proof -
  from assms obtain u where u: "reviewer r = JStr u"
    by (cases "reviewer r") (simp_all add: parsed_ok_def)
  from assms u obtain n where n: "rating r = JNum n"
    by (cases "rating r") (simp_all add: parsed_ok_def)
  from assms u n obtain x where x: "n = Finite x"
    by (cases n) (simp_all add: parsed_ok_def)
  from assms u n x obtain t where t: "text' r = JStr t"
    by (cases "text' r") (simp_all add: parsed_ok_def)
  from u n x t have r: "r = \<lparr> reviewer = JStr u, rating = JNum (Finite x), text' = JStr t \<rparr>"
    by (cases r) simp
  from assms have b: "3 \<le> length u" "length u \<le> 25" "list_all is_word u" "0 \<le> x" "x < 6"
      "10 \<le> length t" "\<not> is_space (hd t)"
    by (simp_all add: parsed_ok_def u n x t)
  from b(6) have "t \<noteq> []" by auto
  from this b(7) have n: "clean t \<noteq> []" by (rule clean_nonempty)
  from b(3) have u: "clean u = u" by (rule clean_word_string)
  from n u b show ?thesis
    by (simp add: r serialize_def clean_val_str serialize_rating_def cleaned_text_def
        handed_ok_def clean_clean)
qed

lemma simple_serialize_eq:
  assumes "simple_ok r"
  shows "serialize_simple r = Inr (cleaned_text r) \<and> handed_ok 20 (cleaned_text r)"
proof -
  from assms obtain u where u: "reviewer r = JStr u"
    by (cases "reviewer r") (simp_all add: simple_ok_def)
  from assms u obtain n where n: "rating r = JNum n"
    by (cases "rating r") (simp_all add: simple_ok_def)
  from assms u n obtain x where x: "n = Finite x"
    by (cases n) (simp_all add: simple_ok_def)
  from assms u n x obtain t where t: "text' r = JStr t"
    by (cases "text' r") (simp_all add: simple_ok_def)
  from u n x t have r: "r = \<lparr> reviewer = JStr u, rating = JNum (Finite x), text' = JStr t \<rparr>"
    by (cases r) simp
  from assms have b: "3 \<le> length u" "length u \<le> 20" "list_all is_word u" "0 \<le> x" "x < 6"
      "t \<noteq> []" "\<not> is_space (hd t)"
    by (simp_all add: simple_ok_def u n x t)
  from b(6,7) have n: "clean t \<noteq> []" by (rule clean_nonempty)
  from b(3) have u: "clean u = u" by (rule clean_word_string)
  from n u b show ?thesis
    by (simp add: r serialize_simple_def clean_val_str serialize_rating_simple_def coalesce_def
        cleaned_text_def handed_ok_def clean_clean)
qed

lemma serialize_all_map:
  "\<forall>r\<in>set revs. serialize r = Inr (f r) \<Longrightarrow> serialize_all revs = Inr (map f revs)"
  by (induction revs) simp_all

lemma serialize_all_simple_map:
  "\<forall>r\<in>set revs. serialize_simple r = Inr (f r) \<Longrightarrow> serialize_all_simple revs = Inr (map f revs)"
  by (induction revs) simp_all

lemma serialize_all_ratings:
  "serialize_all revs = Inr out \<Longrightarrow> map rating out = map (\<lambda>r. serialize_rating (rating r)) revs"
proof (induction revs arbitrary: out)
  case Nil
  then show ?case by simp
next
  case (Cons r revs)
  from Cons.prems obtain r' rs' where s: "serialize r = Inr r'" "serialize_all revs = Inr rs'"
    "out = r' # rs'"
    by (auto split: sum.splits)
  from s(1) have "rating r' = serialize_rating (rating r)"
    by (auto simp: serialize_def split: sum.splits)
  with Cons.IH[OF s(2)] s(3) show ?case by simp
qed

lemma serialize_all_simple_ratings:
  "serialize_all_simple revs = Inr out \<Longrightarrow>
   map rating out = map (\<lambda>r. serialize_rating_simple (rating r)) revs"
proof (induction revs arbitrary: out)
  case Nil
  then show ?case by simp
next
  case (Cons r revs)
  from Cons.prems obtain r' rs' where s: "serialize_simple r = Inr r'"
    "serialize_all_simple revs = Inr rs'" "out = r' # rs'"
    by (auto split: sum.splits)
  from s(1) have "rating r' = serialize_rating_simple (rating r)"
    by (auto simp: serialize_simple_def split: sum.splits)
  with Cons.IH[OF s(2)] s(3) show ?case by simp
qed

subsection \<open>Keys of parsed records\<close>

lemma bar_split:
  "CHR ''|'' \<notin> set a \<Longrightarrow> CHR ''|'' \<notin> set a' \<Longrightarrow> a @ CHR ''|'' # b = a' @ CHR ''|'' # b' \<Longrightarrow>
   a = a' \<and> b = b'"
proof (induction a arbitrary: a')
  case Nil
  then show ?case by (cases a') auto
next
  case (Cons x a)
  then show ?case by (cases a') auto
qed

lemma word_no_bar: "list_all is_word u \<Longrightarrow> CHR ''|'' \<notin> set u"
  by (auto simp: list_all_iff is_word_def Let_def)

lemma key_inj:
  assumes ns: "inj_on ns rating_values" "\<forall>x\<in>rating_values. CHR ''|'' \<notin> set (ns x)"
    and p: "parse_card c = Some r" "parse_card c' = Some r'"
    and k: "review_key ns r = review_key ns r'"
  shows "r = r'"
proof -
  from parse_card_shape[OF p(1)] obtain u x t where
    r: "r = \<lparr> reviewer = JStr u, rating = JNum (Finite x), text' = JStr t \<rparr>"
    and u: "list_all is_word u" and x: "x \<in> rating_values" by blast
  from parse_card_shape[OF p(2)] obtain u' x' t' where
    r': "r' = \<lparr> reviewer = JStr u', rating = JNum (Finite x'), text' = JStr t' \<rparr>"
    and u': "list_all is_word u'" and x': "x' \<in> rating_values" by blast
  have e: "u @ CHR ''|'' # (ns x @ CHR ''|'' # t) = u' @ CHR ''|'' # (ns x' @ CHR ''|'' # t')"
    using k unfolding r r' review_key_def by simp
  from bar_split[OF word_no_bar[OF u] word_no_bar[OF u'] e]
  have 1: "u = u'" and 2: "ns x @ CHR ''|'' # t = ns x' @ CHR ''|'' # t'" by simp_all
  from ns(2) x x' have "CHR ''|'' \<notin> set (ns x)" "CHR ''|'' \<notin> set (ns x')" by simp_all
  from bar_split[OF this 2] have 3: "ns x = ns x'" and 4: "t = t'" by simp_all
  from 3 ns(1) x x' have "x = x'" by (auto dest: inj_onD)
  with 1 4 r r' show ?thesis by simp
qed

lemma anchor_three:
  assumes ns: "inj_on ns rating_values" "\<forall>x\<in>rating_values. CHR ''|'' \<notin> set (ns x)"
    and cards: "anchor_cards doc = [c1, c2, c3]"
    and p: "parse_card c1 = Some r1" "parse_card c2 = Some r2" "parse_card c3 = Some r3"
    and dup: "r1 = r2 \<or> r1 = r3 \<or> r2 = r3" and other: "\<not> (r1 = r2 \<and> r2 = r3)"
  shows "evaluate ns 6 doc = (if r1 = r2 then [r1, r3] else [r1, r2]) \<and>
         length (evaluate ns 6 doc) = 2"
proof -
  have k12: "review_key ns r1 = review_key ns r2 \<longleftrightarrow> r1 = r2"
    using key_inj[OF ns p(1) p(2)] by auto
  have k13: "review_key ns r1 = review_key ns r3 \<longleftrightarrow> r1 = r3"
    using key_inj[OF ns p(1) p(3)] by auto
  have k23: "review_key ns r2 = review_key ns r3 \<longleftrightarrow> r2 = r3"
    using key_inj[OF ns p(2) p(3)] by auto
  from cards have cc: "candidateCards doc = [c1, c2, c3]" by (simp add: candidateCards_def)
  have pl: "parse_loop 6 [c1, c2, c3] [] = [r1, r2, r3]" using p by simp
  have ev: "evaluate ns 6 doc = take 6 (dedupe ns [] [r1, r2, r3])"
    by (simp only: evaluate_def cc pl dedupe_cards_eq)
  have "dedupe ns [] [r1, r2, r3] =
      (if review_key ns r1 = review_key ns r2
       then (if review_key ns r1 = review_key ns r3 then [r1] else [r1, r3])
       else (if review_key ns r2 = review_key ns r3 \<or> review_key ns r1 = review_key ns r3
             then [r1, r2] else [r1, r2, r3]))"
    by (auto simp: eq_commute)
  then have d: "dedupe ns [] [r1, r2, r3] =
      (if r1 = r2 then (if r1 = r3 then [r1] else [r1, r3])
       else (if r2 = r3 \<or> r1 = r3 then [r1, r2] else [r1, r2, r3]))"
    by (simp only: k12 k13 k23)
  consider (a) "r1 = r2" "r1 \<noteq> r3" | (b) "r1 \<noteq> r2" "r1 = r3" | (c) "r1 \<noteq> r2" "r2 = r3"
    using dup other by blast
  then have "dedupe ns [] [r1, r2, r3] = (if r1 = r2 then [r1, r3] else [r1, r2])"
  proof cases
    case a
    with d show ?thesis by simp
  next
    case b
    with d show ?thesis by simp
  next
    case c
    with d show ?thesis by simp
  qed
  with ev show ?thesis by simp
qed

lemma tenths_floor:
  fixes d e :: nat
  shows "nat \<lfloor>(real d + real e / 10) * 10\<rfloor> = 10 * d + e"
proof -
  have "(real d + real e / 10) * 10 = real (10 * d + e)" by simp
  then show ?thesis by (simp only: floor_of_nat nat_int)
qed

lemma show_tenths_eq:
  fixes d e :: nat
  assumes "e \<le> 9"
  shows "show_tenths (real d + real e / 10) =
           char_of (48 + d) # (if e = 0 then [] else [CHR ''.'', char_of (48 + e)])"
proof -
  from assms have dm: "(10 * d + e) div 10 = d" "(10 * d + e) mod 10 = e" by simp_all
  have "show_tenths (real d + real e / 10) =
      char_of (48 + (10 * d + e) div 10) #
        (if (10 * d + e) mod 10 = 0 then [] else [CHR ''.'', char_of (48 + (10 * d + e) mod 10)])"
    by (simp only: show_tenths_def Let_def tenths_floor)
  then show ?thesis by (simp only: dm)
qed

lemma digit_char_inj:
  fixes d d' :: nat
  assumes "d \<le> 9" "d' \<le> 9" "(char_of (48 + d) :: char) = char_of (48 + d')"
  shows "d = d'"
proof -
  from assms(3) have "(of_char (char_of (48 + d) :: char) :: nat) = of_char (char_of (48 + d') :: char)"
    by simp
  with assms(1,2) show ?thesis by simp
qed

lemma digit_char_no_bar:
  fixes d :: nat
  assumes "d \<le> 9"
  shows "(char_of (48 + d) :: char) \<noteq> CHR ''|''"
proof
  assume "(char_of (48 + d) :: char) = CHR ''|''"
  then have "(of_char (char_of (48 + d) :: char) :: nat) = of_char (CHR ''|'')" by simp
  with assms show False by simp
qed

lemma show_tenths_inj: "inj_on show_tenths rating_values"
proof (rule inj_onI)
  fix x y assume "x \<in> rating_values" "y \<in> rating_values" and eq: "show_tenths x = show_tenths y"
  then obtain d e d' e' where x: "x = real d + real e / 10" "d \<le> 5" "e \<le> 9"
    and y: "y = real d' + real e' / 10" "d' \<le> 5" "e' \<le> 9"
    unfolding rating_values_def by blast
  from eq have s: "char_of (48 + d) # (if e = 0 then [] else [CHR ''.'', char_of (48 + e)]) =
      (char_of (48 + d') :: char) # (if e' = 0 then [] else [CHR ''.'', char_of (48 + e')])"
    by (simp only: x(1) y(1) show_tenths_eq[OF x(3)] show_tenths_eq[OF y(3)])
  then have "(char_of (48 + d) :: char) = char_of (48 + d')" by simp
  with x(2) y(2) have d: "d = d'" by (intro digit_char_inj) simp_all
  from s have "e = e'"
    using digit_char_inj[of e e'] x(3) y(3) by (auto split: if_splits)
  with d x(1) y(1) show "x = y" by simp
qed

lemma show_tenths_no_bar: "\<forall>x\<in>rating_values. CHR ''|'' \<notin> set (show_tenths x)"
proof
  fix x assume "x \<in> rating_values"
  then obtain d e where x: "x = real d + real e / 10" "d \<le> 5" "e \<le> 9"
    unfolding rating_values_def by blast
  from x(2,3) have "(char_of (48 + d) :: char) \<noteq> CHR ''|''" "(char_of (48 + e) :: char) \<noteq> CHR ''|''"
    by (simp_all add: digit_char_no_bar)
  then show "CHR ''|'' \<notin> set (show_tenths x)"
    by (auto simp: x(1) show_tenths_eq[OF x(3)])
qed

lemma key_of_strings:
  "review_key ns \<lparr> reviewer = JStr u, rating = JNum (Finite y), text' = JStr t \<rparr> =
     u @ ''|'' @ ns y @ ''|'' @ t"
  by (simp add: review_key_def)

lemma key_eq_iff:
  assumes "CHR ''|'' \<notin> set u" "CHR ''|'' \<notin> set u'" "CHR ''|'' \<notin> set a" "CHR ''|'' \<notin> set a'"
  shows "u @ ''|'' @ a @ ''|'' @ t = u' @ ''|'' @ a' @ ''|'' @ t' \<longleftrightarrow> u = u' \<and> a = a' \<and> t = t'"
proof
  assume e: "u @ ''|'' @ a @ ''|'' @ t = u' @ ''|'' @ a' @ ''|'' @ t'"
  then have "u @ CHR ''|'' # (a @ CHR ''|'' # t) = u' @ CHR ''|'' # (a' @ CHR ''|'' # t')" by simp
  from bar_split[OF assms(1,2) this] have 1: "u = u'" "a @ CHR ''|'' # t = a' @ CHR ''|'' # t'"
    by simp_all
  from bar_split[OF assms(3,4) 1(2)] 1(1) show "u = u' \<and> a = a' \<and> t = t'" by simp
qed simp

lemma digit_chars:
  "(char_of (49 :: nat) :: char) = CHR ''1''" "(char_of (50 :: nat) :: char) = CHR ''2''"
  "(char_of (52 :: nat) :: char) = CHR ''4''" "(char_of (53 :: nat) :: char) = CHR ''5''"
  "(char_of (56 :: nat) :: char) = CHR ''8''"
  by code_simp+

lemma show_tenths_1: "show_tenths 1 = ''1''"
  using show_tenths_eq[of 0 1] by (simp add: digit_chars)

lemma show_tenths_2: "show_tenths 2 = ''2''"
  using show_tenths_eq[of 0 2] by (simp add: digit_chars)

lemma show_tenths_4_8: "show_tenths 4.8 = ''4.8''"
  using show_tenths_eq[of 8 4] by (simp add: digit_chars)

lemma show_tenths_5: "show_tenths 5 = ''5''"
  using show_tenths_eq[of 0 5] by (simp add: digit_chars)

subsection \<open>The examples, evaluated\<close>

lemma parse_card_bob:
  "parse_card bob_block =
     Some \<lparr> reviewer = JStr ''bob_the_builder'', rating = JNum (Finite 4.8),
            text' = JStr ''11/11/2025 Fast shipment and great packaging'' \<rparr>"
  unfolding bob_block_def by code_simp

lemma parse_card_bob_dated:
  "parse_card bob_block_dated =
     Some \<lparr> reviewer = JStr ''bob_the_builder'', rating = JNum (Finite 4.8),
            text' = JStr ''Fast shipment and great packaging'' \<rparr>"
  unfolding bob_block_dated_def by code_simp

lemma bob_clean: "clean bob_block = bob_block"
  unfolding bob_block_def by code_simp

lemma bob_length: "length bob_block = 73"
  by (simp add: bob_block_def)

lemma bob_quiet: "\<not> is_noise_dom bob_block"
  unfolding bob_block_def by code_simp

lemma bob_rating: "rating_match bob_block = Some ''4.8''"
  unfolding bob_block_def by code_simp

lemma bob_user: "user_match bob_block = Some ''bob_the_builder''"
  unfolding bob_block_def by code_simp

lemma bob_body:
  "trim (strip_user ''bob_the_builder'' (trim (remove_see_more 0 bob_block))) =
     ''4.8 11/11/2025 Fast shipment and great packaging''"
  unfolding bob_block_def by code_simp

lemma parseFloat_4_8: "parseFloat ''4.8'' = Finite 4.8"
  by (simp add: parseFloat_def is_space_def is_digit_def digits_val_def digit_val_def
      exponent_part_def scale10_def Let_def)

lemma dom_loop_bob:
  "dom_loop limit (bob_block # ts) out =
     (if limit \<le> Suc (length out) then out @ [bob_record]
      else dom_loop limit ts (out @ [bob_record]))"
  by (simp add: bob_quiet bob_rating bob_user bob_body parseFloat_4_8 bob_record_def Let_def)

lemma dom_fallback_once: "dom_fallback 6 [bob_block] = [bob_record]"
  by (simp add: dom_fallback_def bob_clean bob_length dom_loop_bob del: dom_loop.simps(2))

lemma dom_fallback_twice: "dom_fallback 6 [bob_block, bob_block] = [bob_record, bob_record]"
  by (simp add: dom_fallback_def bob_clean bob_length dom_loop_bob del: dom_loop.simps(2))

lemma capture_short:
  "foldl on_response [] [short_response] =
     [(''https://www.whatnot.com/services/graphql'', short_payload)]"
proof -
  have "truthy short_payload" by (simp add: short_payload_def)
  then show ?thesis
    by (simp add: on_response_def short_response_def toLowerCase_def lower_char_def)
qed

lemma review_like_short: "review_like short_review"
  by (simp add: short_review_def hasRating_def hasText_def hasUser_def toLowerCase_def lower_char_def)

lemma normalize_short: "normalizeReview short_review = Inr short_record"
  by (simp add: short_review_def short_record_def normalizeReview_def reviewer_of_def text_of_def
      rating_of_def coalesce_def nested_def string_or_empty_def clean_def trim_def is_space_def)

lemma noise_short: "\<not> is_noise_net ns (JStr ''ok'')"
  by (simp add: is_noise_net_def test_ci_def reviews_paren_def toLowerCase_def lower_char_def)

lemma scan_short: "findReviewItemsDeep short_payload [] = [short_review]"
proof -
  have "arrays_of short_payload = [[short_review]]"
    by (simp add: short_payload_def) (simp add: short_review_def)
  then show ?thesis by (simp add: scan_eq(1) review_like_short)
qed

lemma extract_items_short: "extract_items ns [short_review] [] = Inr [short_record]"
proof -
  have "\<not> is_noise_net ns (text' short_record)"
    by (simp add: short_record_def noise_short)
  moreover have "truthy (reviewer short_record)" "truthy (text' short_record)"
    "\<not> nullish (rating short_record)"
    by (simp_all add: short_record_def)
  ultimately show ?thesis by (simp add: normalize_short)
qed

lemma extract_short:
  "extract_network ns (foldl on_response [] [short_response]) [] = Inr [short_record]"
  by (simp only: capture_short extract_network.simps snd_conv scan_short extract_items_short)
    simp

lemma run_short:
  "run_extraction ns limit [short_response] ds = Inr ([Network], take limit [short_record])"
  by (simp only: run_extraction_def extract_short) simp

lemma short_not_ok: "\<not> spec_record_ok short_record"
  by (simp add: spec_record_ok_def short_record_def)

lemma demo_cards: "anchor_cards demo_doc = [bob_block_dated, alice_card, bob_block_dated]"
  unfolding demo_doc_def see_more_anchor_def bob_block_dated_def alice_card_def by code_simp

lemma parse_alice: "parse_card alice_card = Some alice_card_record"
  unfolding alice_card_def alice_card_record_def by code_simp

lemma evaluate_demo: "evaluate show_tenths 6 demo_doc = [bob_card_record, alice_card_record]"
proof -
  have b: "parse_card bob_block_dated = Some bob_card_record"
    by (simp add: parse_card_bob_dated bob_card_record_def)
  have ne: "bob_card_record \<noteq> alice_card_record"
    by (simp add: bob_card_record_def alice_card_record_def)
  from anchor_three[OF show_tenths_inj show_tenths_no_bar demo_cards b parse_alice b] ne
  show ?thesis by simp
qed

lemma terse_blocks:
  "filter (\<lambda>t. length t > 20 \<and> length t < 900) (map clean (root_divs terse_page)) =
     [terse_block]"
  unfolding terse_page_def terse_block_def by code_simp

lemma simple_loop_terse: "simple_loop 6 [terse_block] [] = [terse_record]"
  unfolding terse_block_def terse_record_def by code_simp

lemma evaluate_terse: "evaluate_simple ns 6 terse_page = [terse_record]"
  by (simp add: evaluate_simple_def terse_blocks simple_loop_terse dedupe_cards_eq
      del: simple_loop.simps)

lemma terse_not_ok: "\<not> spec_record_ok terse_record"
  by (simp add: spec_record_ok_def terse_record_def)

lemma spaced_clean: "clean spaced_block = spaced_block"
  unfolding spaced_block_def by code_simp

lemma spaced_length: "length spaced_block = 57"
  by (simp add: spaced_block_def)

lemma spaced_quiet: "\<not> is_noise_dom spaced_block"
  unfolding spaced_block_def by code_simp

lemma spaced_rating: "rating_match spaced_block = Some ''4.5''"
  unfolding spaced_block_def by code_simp

lemma spaced_user: "user_match spaced_block = Some ''user_1''"
  unfolding spaced_block_def by code_simp

lemma spaced_body:
  "trim (strip_user ''user_1'' (trim (remove_see_more 0 spaced_block))) = ''4.5      x''"
  unfolding spaced_block_def by code_simp

lemma parseFloat_4_5: "parseFloat ''4.5'' = Finite 4.5"
  by (simp add: parseFloat_def is_space_def is_digit_def digits_val_def digit_val_def
      exponent_part_def scale10_def Let_def)

lemma spaced_loop: "dom_loop 6 [spaced_block] [] = [spaced_record]"
  by (simp add: spaced_quiet spaced_rating spaced_user spaced_body parseFloat_4_5
      spaced_record_def Let_def)

lemma dom_fallback_spaced: "dom_fallback 6 [spaced_block] = [spaced_record]"
  by (simp add: dom_fallback_def spaced_clean spaced_length spaced_loop del: dom_loop.simps(2))

lemma spaced_handed_eq: "cleaned_text spaced_record = spaced_handed"
  unfolding spaced_record_def spaced_handed_def cleaned_text_def by code_simp

lemma terse_handed_eq: "cleaned_text terse_record = terse_handed"
  unfolding terse_record_def terse_handed_def cleaned_text_def by code_simp

lemma bob_record_clean: "cleaned_text bob_record = bob_record"
  unfolding bob_record_def cleaned_text_def by code_simp

lemma bob_card_clean: "cleaned_text bob_card_record = bob_card_record"
  unfolding bob_card_record_def cleaned_text_def by code_simp

lemma alice_card_clean: "cleaned_text alice_card_record = alice_card_record"
  unfolding alice_card_record_def cleaned_text_def by code_simp

lemma short_gated: "gated short_record"
  by (simp add: gated_def short_record_def clean_def trim_def is_space_def)

lemma bob_parsed: "parsed_ok bob_record"
  using dom_fallback_inv[of 6 "[bob_block]"] by (simp add: dom_fallback_once)

lemma main_short:
  "main ns limit now [short_response] ds =
     Inr \<lparr> source = ''whatnot'', profile_url = TARGET_URL, fetched_at = now,
           count = length (take limit [short_record]), reviews = take limit [short_record] \<rparr>"
proof -
  have "\<forall>r\<in>set (take limit [short_record]). serialize r = Inr ((\<lambda>r. r) r)"
    using gated_serialize_eq[OF short_gated] by (auto dest: in_set_takeD)
  from serialize_all_map[OF this] show ?thesis by (simp add: main_def run_short)
qed

lemma main_terse:
  "main_simple ns 6 now terse_page =
     Inr \<lparr> source = ''whatnot'', profile_url = TARGET_URL, fetched_at = now,
           count = 1, reviews = [terse_handed] \<rparr>"
proof -
  have "simple_ok terse_record"
    using evaluate_simple_inv[of ns 6 terse_page] by (simp add: evaluate_terse)
  from simple_serialize_eq[OF this] show ?thesis
    by (simp add: main_simple_def evaluate_terse terse_handed_eq)
qed

lemma terse_handed_not_ok: "\<not> spec_record_ok terse_handed"
  by (simp add: spec_record_ok_def terse_handed_def)

lemma main_bob_twice:
  "main ns 6 now [] [bob_block, bob_block] =
     Inr \<lparr> source = ''whatnot'', profile_url = TARGET_URL, fetched_at = now,
           count = 2, reviews = [bob_record, bob_record] \<rparr>"
  using parsed_serialize_eq[OF bob_parsed]
  by (simp add: main_def run_empty_net dom_fallback_twice bob_record_clean)

lemma bar_keys:
  "review_key show_tenths bar_first = ''a|1|2|b''"
  "review_key show_tenths bar_second = ''a|1|2|b''"
  by (simp_all add: bar_first_def bar_second_def review_key_def show_tenths_1 show_tenths_2)

lemma bar_gated: "gated bar_first" "gated bar_second"
  by (simp_all add: bar_first_def bar_second_def gated_def clean_def trim_def is_space_def)

section \<open>The claims\<close>

subsection \<open>C1\<close>

text \<open>
  C1, as the specification states it, fails. The gating of the network strategy tests only
  that reviewer, text and rating are present, so a captured review with the rating 9, the
  reviewer \<open>"al"\<close> and the text \<open>"ok"\<close> reaches the result and the payload; the
  simplest variant asks for five words, returns a text of 8 characters and hands over one of
  7 characters.
\<close>

theorem network_gate_is_loose:
  "run_extraction show_tenths 6 [short_response] [] = Inr ([Network], [short_record]) \<and>
   main show_tenths 6 stamp [short_response] [] =
     Inr \<lparr> source = ''whatnot'', profile_url = TARGET_URL, fetched_at = stamp,
           count = 1, reviews = [short_record] \<rparr> \<and>
   \<not> spec_record_ok short_record \<and>
   evaluate_simple show_tenths 6 terse_page = [terse_record] \<and>
   \<not> spec_record_ok terse_record \<and>
   main_simple show_tenths 6 stamp terse_page =
     Inr \<lparr> source = ''whatnot'', profile_url = TARGET_URL, fetched_at = stamp,
           count = 1, reviews = [terse_handed] \<rparr> \<and>
   \<not> spec_record_ok terse_handed"
  by (simp add: run_short main_short short_not_ok evaluate_terse terse_not_ok main_terse
      terse_handed_not_ok)

text \<open>
  C1, amended. Every record of the final result of a run of the network variant comes
  from one strategy. From the network strategy it has a reviewer and a text that are not
  empty and that cleaning leaves unchanged, and a rating that is a number and not NaN,
  because gating drops every candidate that misses one of the three; its rating, the form of
  its reviewer and the length of its text are not bounded, and the payload carries it
  unchanged. From the DOM fallback, and in the rendered-page variant, it has a reviewer
  matching \<open>[A-Za-z0-9_]{3,25}\<close>, a rating from 0.0 to below 6.0 and a text of 10
  characters or more that does not begin with white space. In the simplest variant it has
  a reviewer matching \<open>[A-Za-z0-9_]{3,20}\<close>, a rating from 0.0 to below 6.0 and a text
  that splits at spaces into five parts or more. The payload of these runs carries each
  record with its text cleaned once more: reviewer and rating are as before, and the text
  is not empty and cleaning leaves it unchanged; it may be shorter than 10 characters.
\<close>

theorem result_set_records:
  "(run_extraction ns limit responses ds = Inr (tried, revs) \<longrightarrow>
      (tried = [Network] \<or> tried = [Network, Dom]) \<and>
      (tried = [Network] \<longrightarrow>
         (\<forall>r\<in>set revs. gated r) \<and>
         (\<exists>p. main ns limit now responses ds = Inr p \<and> count p = length revs \<and>
              reviews p = revs)) \<and>
      (tried = [Network, Dom] \<longrightarrow>
         (\<forall>r\<in>set revs. parsed_ok r) \<and>
         (\<exists>p. main ns limit now responses ds = Inr p \<and> count p = length revs \<and>
              reviews p = map cleaned_text revs \<and>
              (\<forall>r\<in>set (reviews p). handed_ok 25 r)))) \<and>
   (\<forall>r\<in>set (evaluate ns limit doc). parsed_ok r) \<and>
   (\<exists>p. main_dom ns limit now doc = Inr p \<and>
        reviews p = map cleaned_text (evaluate ns limit doc) \<and>
        (\<forall>r\<in>set (reviews p). handed_ok 25 r)) \<and>
   (\<forall>r\<in>set (evaluate_simple ns limit pg). simple_ok r) \<and>
   (\<exists>p. main_simple ns limit now pg = Inr p \<and>
        reviews p = map cleaned_text (evaluate_simple ns limit pg) \<and>
        (\<forall>r\<in>set (reviews p). handed_ok 20 r))"
proof -
  have net: "run_extraction ns limit responses ds = Inr (tried, revs) \<longrightarrow>
      (tried = [Network] \<or> tried = [Network, Dom]) \<and>
      (tried = [Network] \<longrightarrow>
         (\<forall>r\<in>set revs. gated r) \<and>
         (\<exists>p. main ns limit now responses ds = Inr p \<and> count p = length revs \<and>
              reviews p = revs)) \<and>
      (tried = [Network, Dom] \<longrightarrow>
         (\<forall>r\<in>set revs. parsed_ok r) \<and>
         (\<exists>p. main ns limit now responses ds = Inr p \<and> count p = length revs \<and>
              reviews p = map cleaned_text revs \<and>
              (\<forall>r\<in>set (reviews p). handed_ok 25 r)))"
  proof
    assume a: "run_extraction ns limit responses ds = Inr (tried, revs)"
    with run_cases[of ns responses limit ds]
    have tr: "tried = [Network] \<or> tried = [Network, Dom]" by (auto split: if_splits)
    have n: "tried = [Network] \<longrightarrow>
         (\<forall>r\<in>set revs. gated r) \<and>
         (\<exists>p. main ns limit now responses ds = Inr p \<and> count p = length revs \<and>
              reviews p = revs)"
    proof
      assume t: "tried = [Network]"
      with run_records[OF a] have g: "\<forall>r\<in>set revs. gated r" by simp
      then have "\<forall>r\<in>set revs. serialize r = Inr ((\<lambda>r. r) r)" by (simp add: gated_serialize_eq)
      from serialize_all_map[OF this] have "serialize_all revs = Inr revs" by simp
      with a g show "(\<forall>r\<in>set revs. gated r) \<and>
         (\<exists>p. main ns limit now responses ds = Inr p \<and> count p = length revs \<and>
              reviews p = revs)" by (simp add: main_def)
    qed
    have d: "tried = [Network, Dom] \<longrightarrow>
         (\<forall>r\<in>set revs. parsed_ok r) \<and>
         (\<exists>p. main ns limit now responses ds = Inr p \<and> count p = length revs \<and>
              reviews p = map cleaned_text revs \<and>
              (\<forall>r\<in>set (reviews p). handed_ok 25 r))"
    proof
      assume t: "tried = [Network, Dom]"
      with run_records[OF a] have g: "\<forall>r\<in>set revs. parsed_ok r" by simp
      then have "\<forall>r\<in>set revs. serialize r = Inr (cleaned_text r)" by (simp add: parsed_serialize_eq)
      from serialize_all_map[OF this] have s: "serialize_all revs = Inr (map cleaned_text revs)" .
      from g have "\<forall>r\<in>set (map cleaned_text revs). handed_ok 25 r"
        by (simp add: parsed_serialize_eq)
      with a g s show "(\<forall>r\<in>set revs. parsed_ok r) \<and>
         (\<exists>p. main ns limit now responses ds = Inr p \<and> count p = length revs \<and>
              reviews p = map cleaned_text revs \<and>
              (\<forall>r\<in>set (reviews p). handed_ok 25 r))" by (simp add: main_def)
    qed
    from tr n d show "(tried = [Network] \<or> tried = [Network, Dom]) \<and>
      (tried = [Network] \<longrightarrow>
         (\<forall>r\<in>set revs. gated r) \<and>
         (\<exists>p. main ns limit now responses ds = Inr p \<and> count p = length revs \<and>
              reviews p = revs)) \<and>
      (tried = [Network, Dom] \<longrightarrow>
         (\<forall>r\<in>set revs. parsed_ok r) \<and>
         (\<exists>p. main ns limit now responses ds = Inr p \<and> count p = length revs \<and>
              reviews p = map cleaned_text revs \<and>
              (\<forall>r\<in>set (reviews p). handed_ok 25 r)))" by blast
  qed
  have e1: "\<forall>r\<in>set (evaluate ns limit doc). parsed_ok r" by (rule evaluate_inv)
  have e2: "\<exists>p. main_dom ns limit now doc = Inr p \<and>
        reviews p = map cleaned_text (evaluate ns limit doc) \<and>
        (\<forall>r\<in>set (reviews p). handed_ok 25 r)"
  proof -
    from e1 have "\<forall>r\<in>set (evaluate ns limit doc). serialize r = Inr (cleaned_text r)"
      by (simp add: parsed_serialize_eq)
    from serialize_all_map[OF this]
    have s: "serialize_all (evaluate ns limit doc) = Inr (map cleaned_text (evaluate ns limit doc))" .
    from e1 have "\<forall>r\<in>set (map cleaned_text (evaluate ns limit doc)). handed_ok 25 r"
      by (simp add: parsed_serialize_eq)
    with s show ?thesis by (simp add: main_dom_def)
  qed
  have s1: "\<forall>r\<in>set (evaluate_simple ns limit pg). simple_ok r" by (rule evaluate_simple_inv)
  have s2: "\<exists>p. main_simple ns limit now pg = Inr p \<and>
        reviews p = map cleaned_text (evaluate_simple ns limit pg) \<and>
        (\<forall>r\<in>set (reviews p). handed_ok 20 r)"
  proof -
    from s1 have "\<forall>r\<in>set (evaluate_simple ns limit pg). serialize_simple r = Inr (cleaned_text r)"
      by (simp add: simple_serialize_eq)
    from serialize_all_simple_map[OF this]
    have s: "serialize_all_simple (evaluate_simple ns limit pg) =
        Inr (map cleaned_text (evaluate_simple ns limit pg))" .
    from s1 have "\<forall>r\<in>set (map cleaned_text (evaluate_simple ns limit pg)). handed_ok 20 r"
      by (simp add: simple_serialize_eq)
    with s show ?thesis by (simp add: main_simple_def)
  qed
  from net e1 e2 s1 s2 show ?thesis by blast
qed

theorem result_set_records_witness:
  "run_extraction show_tenths 6 [short_response] [bob_block] = Inr ([Network], [short_record]) \<and>
   gated short_record \<and>
   (\<exists>p. main show_tenths 6 stamp [short_response] [bob_block] = Inr p \<and>
        reviews p = [short_record]) \<and>
   run_extraction show_tenths 6 [] [spaced_block] = Inr ([Network, Dom], [spaced_record]) \<and>
   parsed_ok spaced_record \<and>
   (\<exists>p. main show_tenths 6 stamp [] [spaced_block] = Inr p \<and> reviews p = [spaced_handed]) \<and>
   handed_ok 25 spaced_handed \<and>
   evaluate show_tenths 6 demo_doc = [bob_card_record, alice_card_record] \<and>
   parsed_ok alice_card_record \<and>
   (\<exists>p. main_dom show_tenths 6 stamp demo_doc = Inr p \<and>
        reviews p = [bob_card_record, alice_card_record]) \<and>
   handed_ok 25 alice_card_record \<and>
   evaluate_simple show_tenths 6 terse_page = [terse_record] \<and>
   simple_ok terse_record \<and>
   (\<exists>p. main_simple show_tenths 6 stamp terse_page = Inr p \<and> reviews p = [terse_handed]) \<and>
   handed_ok 20 terse_handed"
proof -
  have a: "run_extraction show_tenths 6 [short_response] [bob_block] = Inr ([Network], [short_record])"
    by (simp add: run_short)
  have b: "run_extraction show_tenths 6 [] [spaced_block] = Inr ([Network, Dom], [spaced_record])"
    by (simp add: run_empty_net dom_fallback_spaced)
  note n = result_set_records[where ns = show_tenths and limit = 6 and now = stamp
      and responses = "[short_response]" and ds = "[bob_block]" and tried = "[Network]"
      and revs = "[short_record]" and doc = demo_doc and pg = terse_page]
  note d = result_set_records[where ns = show_tenths and limit = 6 and now = stamp
      and responses = "[]" and ds = "[spaced_block]" and tried = "[Network, Dom]"
      and revs = "[spaced_record]" and doc = demo_doc and pg = terse_page]
  from n a have 1: "gated short_record \<and>
     (\<exists>p. main show_tenths 6 stamp [short_response] [bob_block] = Inr p \<and>
          reviews p = [short_record])"
    by auto
  from d b have 2: "parsed_ok spaced_record \<and>
     (\<exists>p. main show_tenths 6 stamp [] [spaced_block] = Inr p \<and> reviews p = [spaced_handed]) \<and>
     handed_ok 25 spaced_handed"
    by (auto simp: spaced_handed_eq)
  from n have 3: "parsed_ok alice_card_record \<and>
     (\<exists>p. main_dom show_tenths 6 stamp demo_doc = Inr p \<and>
          reviews p = [bob_card_record, alice_card_record]) \<and>
     handed_ok 25 alice_card_record"
    by (auto simp: evaluate_demo bob_card_clean alice_card_clean)
  from n have 4: "simple_ok terse_record \<and>
     (\<exists>p. main_simple show_tenths 6 stamp terse_page = Inr p \<and> reviews p = [terse_handed]) \<and>
     handed_ok 20 terse_handed"
    by (auto simp: evaluate_terse terse_handed_eq)
  from a b 1 2 3 4 show ?thesis by (simp add: evaluate_demo evaluate_terse)
qed

subsection \<open>C2\<close>

text \<open>
  C2, as the specification states it, fails: on the example block neither the card parser
  nor the DOM fallback of the network variant yields the text
  \<open>"Fast shipment and great packaging"\<close>.
\<close>

theorem body_extraction_keeps_date:
  "parse_card bob_block \<noteq>
     Some \<lparr> reviewer = JStr ''bob_the_builder'', rating = JNum (Finite 4.8),
            text' = JStr ''Fast shipment and great packaging'' \<rparr> \<and>
   dom_fallback 6 [bob_block] \<noteq>
     [\<lparr> reviewer = JStr ''bob_the_builder'', rating = JNum (Finite 4.8),
        text' = JStr ''Fast shipment and great packaging'' \<rparr>]"
  by (simp add: parse_card_bob dom_fallback_once bob_record_def)

text \<open>
  C2, amended. On the example block the card parser (expand marker, then reviewer, then a
  date at the start, then a rating at the start, each removed once) yields the reviewer
  \<open>"bob_the_builder"\<close>, the rating 4.8 and the text
  \<open>"11/11/2025 Fast shipment and great packaging"\<close>: once the reviewer is gone the text
  begins with the rating, so the date step finds nothing and the rating step uncovers the
  date. With the date written before the rating the text is
  \<open>"Fast shipment and great packaging"\<close>. The DOM fallback of the network variant
  removes the marker and the reviewer only.
\<close>

theorem body_extraction_example:
  "parse_card bob_block =
     Some \<lparr> reviewer = JStr ''bob_the_builder'', rating = JNum (Finite 4.8),
            text' = JStr ''11/11/2025 Fast shipment and great packaging'' \<rparr> \<and>
   parse_card bob_block_dated =
     Some \<lparr> reviewer = JStr ''bob_the_builder'', rating = JNum (Finite 4.8),
            text' = JStr ''Fast shipment and great packaging'' \<rparr> \<and>
   dom_fallback 6 [bob_block] =
     [\<lparr> reviewer = JStr ''bob_the_builder'', rating = JNum (Finite 4.8),
        text' = JStr ''4.8 11/11/2025 Fast shipment and great packaging'' \<rparr>]"
  by (simp add: parse_card_bob parse_card_bob_dated dom_fallback_once bob_record_def)

subsection \<open>C3\<close>

text \<open>
  C3. The specification has the output of every strategy deduplicated before it is
  returned. The run of the network variant deduplicates the output of the network strategy
  only: it returns the output of the DOM fallback as \<open>page.evaluate\<close> delivers it. Two
  blocks with the same text give the same record twice, the deduplicated output has one
  record, and the run and its payload carry both.
\<close>

theorem dom_output_not_deduplicated:
  "dom_fallback 6 [bob_block, bob_block] = [bob_record, bob_record] \<and>
   dedupe show_tenths [] [bob_record, bob_record] = [bob_record] \<and>
   run_extraction show_tenths 6 [] [bob_block, bob_block] =
     Inr ([Network, Dom], [bob_record, bob_record]) \<and>
   main show_tenths 6 stamp [] [bob_block, bob_block] =
     Inr \<lparr> source = ''whatnot'', profile_url = TARGET_URL, fetched_at = stamp,
           count = 2, reviews = [bob_record, bob_record] \<rparr>"
  by (simp add: run_empty_net dom_fallback_twice main_bob_twice)

text \<open>
  The order of the strategies and the end of a run are as the specification has them. The
  network strategy runs first and never fails. When its deduplicated output is not empty,
  that output cut to the limit is returned and the DOM fallback does not run. Otherwise the
  DOM fallback runs and the run returns what it delivers, cut to the limit. When both yield
  nothing the run ends normally with an empty result and the count 0; no run ends in an
  error.
\<close>

theorem strategies_in_order:
  "\<exists>net. extract_network ns (foldl on_response [] responses) [] = Inr net \<and>
     (dedupe ns [] net \<noteq> [] \<longrightarrow>
        run_extraction ns limit responses ds = Inr ([Network], take limit (dedupe ns [] net))) \<and>
     (dedupe ns [] net = [] \<longrightarrow>
        run_extraction ns limit responses ds =
          Inr ([Network, Dom], take limit (dom_fallback limit ds))) \<and>
     (dedupe ns [] net = [] \<and> dom_fallback limit ds = [] \<longrightarrow>
        (\<exists>p. main ns limit now responses ds = Inr p \<and> reviews p = [] \<and> count p = 0)) \<and>
     (\<exists>p. main ns limit now responses ds = Inr p)"
proof -
  from run_cases[of ns responses limit ds] obtain net where
    n: "extract_network ns (foldl on_response [] responses) [] = Inr net" and
    run: "run_extraction ns limit responses ds =
       (if dedupe ns [] net = [] then Inr ([Network, Dom], take limit (dom_fallback limit ds))
        else Inr ([Network], take limit (dedupe ns [] net)))" by blast
  from main_total[of ns limit responses ds now] obtain tried revs out where
    m: "run_extraction ns limit responses ds = Inr (tried, revs)" "length out = length revs"
      "main ns limit now responses ds =
       Inr \<lparr> source = ''whatnot'', profile_url = TARGET_URL, fetched_at = now,
             count = length revs, reviews = out \<rparr>" by blast
  have e: "dedupe ns [] net = [] \<and> dom_fallback limit ds = [] \<longrightarrow>
        (\<exists>p. main ns limit now responses ds = Inr p \<and> reviews p = [] \<and> count p = 0)"
    using run m by auto
  from n run m(3) e show ?thesis by auto
qed

theorem strategies_in_order_witness:
  "run_extraction show_tenths 6 [short_response] [bob_block] = Inr ([Network], [short_record]) \<and>
   run_extraction show_tenths 6 [] [bob_block] = Inr ([Network, Dom], [bob_record]) \<and>
   (\<exists>p. main show_tenths 6 ''2025-11-11T09:30:00.000Z'' [] [] = Inr p \<and>
        reviews p = [] \<and> count p = 0)"
proof -
  have d: "dedupe show_tenths [] [short_record] = [short_record]" by simp
  have f: "dom_fallback 6 [] = []" by (simp add: dom_fallback_def)
  from strategies_in_order[of show_tenths "[short_response]" 6 "[bob_block]" "[]"]
  obtain net where
    n: "extract_network show_tenths (foldl on_response [] [short_response]) [] = Inr net" and
    r: "dedupe show_tenths [] net \<noteq> [] \<longrightarrow>
        run_extraction show_tenths 6 [short_response] [bob_block] =
          Inr ([Network], take 6 (dedupe show_tenths [] net))"
    by blast
  from n have "net = [short_record]" by (simp only: extract_short) simp
  with r d
  have a: "run_extraction show_tenths 6 [short_response] [bob_block] = Inr ([Network], [short_record])"
    by simp
  from strategies_in_order[of show_tenths "[]" 6 "[bob_block]" "[]"]
  have b: "run_extraction show_tenths 6 [] [bob_block] = Inr ([Network, Dom], [bob_record])"
    by (simp add: dom_fallback_once)
  from strategies_in_order[of show_tenths "[]" 6 "[]" "''2025-11-11T09:30:00.000Z''"] f
  have c: "\<exists>p. main show_tenths 6 ''2025-11-11T09:30:00.000Z'' [] [] = Inr p \<and>
        reviews p = [] \<and> count p = 0"
    by simp
  from a b c show ?thesis by simp
qed

subsection \<open>C4\<close>

text \<open>
  C4. The rendered-page variant captures no network payload. When the anchor strategy
  yields three candidate cards, each parsed to a record, and one record repeats another
  while the third differs, a run with the limit 6 of the source returns exactly two
  records, in the order in which they were first seen, and its payload counts two. The
  host's conversion of numbers to strings is taken to be injective on the ratings and to
  write no bar.
\<close>

theorem anchor_run_two_of_three:
  assumes "inj_on ns rating_values" and "\<forall>x\<in>rating_values. CHR ''|'' \<notin> set (ns x)"
    and "anchor_cards doc = [c1, c2, c3]"
    and "parse_card c1 = Some r1" and "parse_card c2 = Some r2" and "parse_card c3 = Some r3"
    and "r1 = r2 \<or> r1 = r3 \<or> r2 = r3" and "\<not> (r1 = r2 \<and> r2 = r3)"
  shows "evaluate ns LIMIT doc = (if r1 = r2 then [r1, r3] else [r1, r2]) \<and>
         length (evaluate ns LIMIT doc) = 2 \<and>
         (\<exists>p. main_dom ns LIMIT now doc = Inr p \<and> count p = 2 \<and> length (reviews p) = 2)"
proof -
  have e: "evaluate ns 6 doc = (if r1 = r2 then [r1, r3] else [r1, r2]) \<and>
      length (evaluate ns 6 doc) = 2"
    using assms by (rule anchor_three)
  from main_dom_total[of ns 6 doc now] e
  have "\<exists>p. main_dom ns 6 now doc = Inr p \<and> count p = 2 \<and> length (reviews p) = 2"
    by auto
  with e show ?thesis by (simp add: LIMIT_def)
qed

theorem anchor_run_two_of_three_witness:
  "anchor_cards demo_doc = [bob_block_dated, alice_card, bob_block_dated] \<and>
   evaluate show_tenths LIMIT demo_doc = [bob_card_record, alice_card_record]"
proof -
  have b: "parse_card bob_block_dated = Some bob_card_record"
    by (simp add: parse_card_bob_dated bob_card_record_def)
  have ne: "bob_card_record \<noteq> alice_card_record"
    by (simp add: bob_card_record_def alice_card_record_def)
  from anchor_run_two_of_three[OF show_tenths_inj show_tenths_no_bar demo_cards b parse_alice b] ne
  show ?thesis by (simp add: demo_cards LIMIT_def)
qed

subsection \<open>C5\<close>

text \<open>
  C5, as the specification states it, fails: the key is not the triple. Two records that
  differ in reviewer, rating and text, \<open>("a|1", 2, "b")\<close> and \<open>("a", 1, "2|b")\<close>, both
  of which pass the gating of the network strategy, have the same key \<open>"a|1|2|b"\<close>, and
  the deduplicator keeps the first only.
\<close>

theorem bar_keys_collide:
  "bar_first \<noteq> bar_second \<and> gated bar_first \<and> gated bar_second \<and>
   review_key show_tenths bar_first = ''a|1|2|b'' \<and>
   review_key show_tenths bar_second = ''a|1|2|b'' \<and>
   dedupe show_tenths [] [bar_first, bar_second] = [bar_first] \<and>
   dedupe_cards show_tenths 6 [bar_first, bar_second] = [bar_first]"
proof -
  have "bar_first \<noteq> bar_second" by (simp add: bar_first_def bar_second_def)
  moreover have "dedupe show_tenths [] [bar_first, bar_second] = [bar_first]"
    by (simp add: bar_keys)
  ultimately show ?thesis by (simp add: bar_keys bar_gated dedupe_cards_eq)
qed

text \<open>
  C5, amended. The deduplicator is idempotent, in the filter of the network variant and in
  the capped loop of the two other variants, which is the filter cut to the limit. It keeps
  the first-seen order: on the empty sequence it gives the empty sequence, and a record
  added at the end of a sequence is added at the end of the result when its key is the key
  of no record before it, and is dropped otherwise; the keys of the result are distinct.
  The key is the string that joins the string forms of reviewer, rating and text with a
  bar. For records whose reviewer and text are strings and whose rating is a finite number,
  when neither the reviewers nor the string forms of the ratings contain a bar, two keys
  are equal exactly when the reviewers, the string forms of the ratings and the texts are
  equal.
\<close>

theorem dedupe_idempotent:
  "dedupe ns [] (dedupe ns [] xs) = dedupe ns [] xs \<and>
   dedupe_cards ns limit (dedupe_cards ns limit xs) = dedupe_cards ns limit xs \<and>
   dedupe_cards ns limit xs = take limit (dedupe ns [] xs) \<and>
   dedupe ns [] [] = [] \<and>
   dedupe ns [] (xs @ [x]) =
     dedupe ns [] xs @ (if review_key ns x \<in> review_key ns ` set xs then [] else [x]) \<and>
   distinct (map (review_key ns) (dedupe ns [] xs)) \<and>
   review_key ns r =
     to_string ns (reviewer r) @ ''|'' @ to_string ns (rating r) @ ''|'' @ to_string ns (text' r) \<and>
   review_key ns \<lparr> reviewer = JStr u, rating = JNum (Finite y), text' = JStr t \<rparr> =
     u @ ''|'' @ ns y @ ''|'' @ t \<and>
   (CHR ''|'' \<notin> set u \<and> CHR ''|'' \<notin> set u' \<and> CHR ''|'' \<notin> set (ns y) \<and>
    CHR ''|'' \<notin> set (ns y') \<longrightarrow>
      (review_key ns \<lparr> reviewer = JStr u, rating = JNum (Finite y), text' = JStr t \<rparr> =
       review_key ns \<lparr> reviewer = JStr u', rating = JNum (Finite y'), text' = JStr t' \<rparr> \<longleftrightarrow>
       u = u' \<and> ns y = ns y' \<and> t = t'))"
proof -
  have 1: "dedupe ns [] (dedupe ns [] xs) = dedupe ns [] xs" by (rule dedupe_idem)
  have 2: "dedupe_cards ns limit (dedupe_cards ns limit xs) = dedupe_cards ns limit xs"
    by (simp add: dedupe_cards_eq dedupe_take)
  have 3: "dedupe_cards ns limit xs = take limit (dedupe ns [] xs)" by (rule dedupe_cards_eq)
  have 4: "dedupe ns [] (xs @ [x]) =
     dedupe ns [] xs @ (if review_key ns x \<in> review_key ns ` set xs then [] else [x])"
    using dedupe_snoc[of ns "[]" xs x] by simp
  have 5: "distinct (map (review_key ns) (dedupe ns [] xs))"
    using dedupe_keys[of ns "[]" xs] by simp
  have 6: "review_key ns r =
     to_string ns (reviewer r) @ ''|'' @ to_string ns (rating r) @ ''|'' @ to_string ns (text' r)"
    by (rule review_key_def)
  have 7: "CHR ''|'' \<notin> set u \<and> CHR ''|'' \<notin> set u' \<and> CHR ''|'' \<notin> set (ns y) \<and>
    CHR ''|'' \<notin> set (ns y') \<longrightarrow>
      (review_key ns \<lparr> reviewer = JStr u, rating = JNum (Finite y), text' = JStr t \<rparr> =
       review_key ns \<lparr> reviewer = JStr u', rating = JNum (Finite y'), text' = JStr t' \<rparr> \<longleftrightarrow>
       u = u' \<and> ns y = ns y' \<and> t = t')"
  proof
    assume b: "CHR ''|'' \<notin> set u \<and> CHR ''|'' \<notin> set u' \<and> CHR ''|'' \<notin> set (ns y) \<and>
      CHR ''|'' \<notin> set (ns y')"
    then have "u @ ''|'' @ ns y @ ''|'' @ t = u' @ ''|'' @ ns y' @ ''|'' @ t' \<longleftrightarrow>
        u = u' \<and> ns y = ns y' \<and> t = t'"
      by (intro key_eq_iff) simp_all
    then show "review_key ns \<lparr> reviewer = JStr u, rating = JNum (Finite y), text' = JStr t \<rparr> =
       review_key ns \<lparr> reviewer = JStr u', rating = JNum (Finite y'), text' = JStr t' \<rparr> \<longleftrightarrow>
       u = u' \<and> ns y = ns y' \<and> t = t'"
      by (simp only: key_of_strings)
  qed
  from 1 2 3 4 5 6 7 key_of_strings[of ns u y t] show ?thesis by (simp only: dedupe.simps simp_thms)
qed

theorem dedupe_idempotent_witness:
  "CHR ''|'' \<notin> set ''bob_the_builder'' \<and> CHR ''|'' \<notin> set ''alice99'' \<and>
   CHR ''|'' \<notin> set (show_tenths 4.8) \<and> CHR ''|'' \<notin> set (show_tenths 5) \<and>
   review_key show_tenths bob_card_record \<noteq> review_key show_tenths alice_card_record \<and>
   dedupe show_tenths [] ([bob_card_record, alice_card_record] @ [bob_card_record]) =
     [bob_card_record, alice_card_record]"
proof -
  have h: "CHR ''|'' \<notin> set ''bob_the_builder'' \<and> CHR ''|'' \<notin> set ''alice99'' \<and>
      CHR ''|'' \<notin> set (show_tenths 4.8) \<and> CHR ''|'' \<notin> set (show_tenths 5)"
    using show_tenths_4_8 show_tenths_5 by simp
  from dedupe_idempotent[where ns = show_tenths and u = "''bob_the_builder''" and y = "4.8"
      and t = "''Fast shipment and great packaging''" and u' = "''alice99''" and y' = 5
      and t' = "''Great seller, fast shipping! Would buy again''"] h
  have k: "review_key show_tenths bob_card_record \<noteq> review_key show_tenths alice_card_record"
    by (simp add: bob_card_record_def alice_card_record_def)
  then have two: "dedupe show_tenths [] [bob_card_record, alice_card_record] =
      [bob_card_record, alice_card_record]"
    by simp
  from dedupe_idempotent[where ns = show_tenths and xs = "[bob_card_record, alice_card_record]"
      and x = bob_card_record]
  have "dedupe show_tenths [] ([bob_card_record, alice_card_record] @ [bob_card_record]) =
     dedupe show_tenths [] [bob_card_record, alice_card_record] @
       (if review_key show_tenths bob_card_record \<in>
           review_key show_tenths ` set [bob_card_record, alice_card_record] then []
        else [bob_card_record])"
    by blast
  with two have "dedupe show_tenths [] ([bob_card_record, alice_card_record] @ [bob_card_record]) =
     [bob_card_record, alice_card_record]"
    by simp
  with h k show ?thesis by simp
qed

subsection \<open>C6\<close>

text \<open>
  C6, as the specification states it, fails: an object whose only rating-like key is
  \<open>total_score\<close> contains the term \<open>score\<close>, and the scanner leaves it out.
\<close>

theorem scanner_misses_contained_score:
  "spec_review_like scored \<and> findReviewItemsDeep (JArr [scored]) [] = []"
  by (simp add: spec_review_like_def scored_def hasRating_def hasText_def hasUser_def
      toLowerCase_def lower_char_def)

text \<open>
  C6, amended. The scanner returns, in traversal order, the elements of every array of
  the tree that pass the element test. An element passes when it is an object and, among
  its lower-cased keys, one is \<open>stars\<close> or \<open>score\<close> or contains \<open>rating\<close>, one is
  \<open>review\<close> or contains \<open>comment\<close>, \<open>message\<close> or \<open>text\<close>, and one is \<open>reviewer\<close> or
  contains \<open>user\<close> or \<open>buyer\<close>. On the empty array and on the empty object the result
  is empty; on a tree whose only array holds one passing object the result is that object.
\<close>

theorem scanner_collects:
  "findReviewItemsDeep v [] = concat (map (filter review_like) (arrays_of v)) \<and>
   ((\<forall>kvs. v \<noteq> JObj kvs) \<longrightarrow> \<not> review_like v) \<and>
   (review_like (JObj kvs) \<longleftrightarrow>
      (\<exists>k\<in>set (map (\<lambda>kv. toLowerCase (fst kv)) kvs).
          k = ''stars'' \<or> k = ''score'' \<or> str_includes k ''rating'') \<and>
      (\<exists>k\<in>set (map (\<lambda>kv. toLowerCase (fst kv)) kvs).
          k = ''review'' \<or> str_includes k ''comment'' \<or> str_includes k ''message'' \<or>
          str_includes k ''text'') \<and>
      (\<exists>k\<in>set (map (\<lambda>kv. toLowerCase (fst kv)) kvs).
          k = ''reviewer'' \<or> str_includes k ''user'' \<or> str_includes k ''buyer'')) \<and>
   findReviewItemsDeep (JArr []) [] = [] \<and>
   findReviewItemsDeep (JObj []) [] = [] \<and>
   (review_like obj \<and> arrays_of w = [[obj]] \<longrightarrow> findReviewItemsDeep w [] = [obj])"
proof -
  have 1: "findReviewItemsDeep v [] = concat (map (filter review_like) (arrays_of v))"
    by (simp add: scan_eq(1))
  have 2: "(\<forall>kvs. v \<noteq> JObj kvs) \<longrightarrow> \<not> review_like v"
    by (cases v) simp_all
  have 3: "review_like obj \<and> arrays_of w = [[obj]] \<longrightarrow> findReviewItemsDeep w [] = [obj]"
    by (simp add: scan_eq(1))
  show ?thesis
    using 1 2 3 by (simp add: Let_def hasRating_iff hasText_iff hasUser_iff)
qed

theorem scanner_collects_witness:
  "review_like alice \<and> arrays_of tree = [[alice]] \<and> findReviewItemsDeep tree [] = [alice]"
proof -
  have a: "review_like alice"
    by (simp add: alice_def hasRating_def hasText_def hasUser_def toLowerCase_def lower_char_def)
  have b: "arrays_of tree = [[alice]]"
    by (simp add: tree_def alice_def)
  from scanner_collects[of tree "[]" alice tree] a b show ?thesis by simp
qed

subsection \<open>C7\<close>

text \<open>
  C7. The field normalizer maps the object with \<open>username\<close> \<open>"alice99"\<close>, \<open>stars\<close>
  \<open>"4.7"\<close> and \<open>comment\<close> \<open>"Great seller, fast shipping!"\<close> to the record with that
  reviewer, that text and the rating 4.7, a number parsed from the string.
\<close>

theorem normalizeReview_alice:
  "normalizeReview alice =
     Inr \<lparr> reviewer = JStr ''alice99'', rating = JNum (Finite 4.7),
           text' = JStr ''Great seller, fast shipping!'' \<rparr>"
  by (simp add: alice_def normalizeReview_def reviewer_of_def text_of_def rating_of_def
      coalesce_def nested_def string_or_empty_def parseFloat_4_7 clean_def trim_def is_space_def)

subsection \<open>C8\<close>

text \<open>
  C8. For every limit, every run returns at most that many records: the extraction and the
  payload of the network variant, and the function and the payload of the two other
  variants. Every run ends with a payload.
\<close>

theorem result_within_limit:
  "(\<exists>tried revs. run_extraction ns limit responses ds = Inr (tried, revs) \<and>
      length revs \<le> limit) \<and>
   (\<exists>p. main ns limit now responses ds = Inr p \<and> length (reviews p) \<le> limit \<and>
      count p \<le> limit) \<and>
   length (evaluate ns limit doc) \<le> limit \<and>
   (\<exists>p. main_dom ns limit now doc = Inr p \<and> length (reviews p) \<le> limit \<and>
      count p \<le> limit) \<and>
   length (evaluate_simple ns limit pg) \<le> limit \<and>
   (\<exists>p. main_simple ns limit now pg = Inr p \<and> length (reviews p) \<le> limit \<and>
      count p \<le> limit)"
proof -
  from main_total[of ns limit responses ds now]
  have a: "(\<exists>tried revs. run_extraction ns limit responses ds = Inr (tried, revs) \<and>
      length revs \<le> limit) \<and>
   (\<exists>p. main ns limit now responses ds = Inr p \<and> length (reviews p) \<le> limit \<and>
      count p \<le> limit)"
    by auto
  from main_dom_total[of ns limit doc now] evaluate_length[of ns limit doc]
  have b: "\<exists>p. main_dom ns limit now doc = Inr p \<and> length (reviews p) \<le> limit \<and>
      count p \<le> limit"
    by auto
  from main_simple_total[of ns limit pg now] evaluate_simple_length[of ns limit pg]
  have c: "\<exists>p. main_simple ns limit now pg = Inr p \<and> length (reviews p) \<le> limit \<and>
      count p \<le> limit"
    by auto
  from a b c evaluate_length[of ns limit doc] evaluate_simple_length[of ns limit pg]
  show ?thesis by simp
qed

subsection \<open>C9\<close>

text \<open>
  C9, as the specification states it, fails in the simplest variant, which tests the rating
  with \<open>??\<close>: a rating that is not a number and not null, the string \<open>"4.5"\<close>, is
  written to the payload unchanged and not as 5.0. The two other variants write 5.0 for it.
\<close>

theorem simple_payload_keeps_string:
  "serialize_rating_simple (JStr ''4.5'') = JStr ''4.5'' \<and>
   serialize_rating_simple (JStr ''4.5'') \<noteq> JNum (Finite 5) \<and>
   serialize_rating (JStr ''4.5'') = JNum (Finite 5) \<and>
   serialize_simple \<lparr> reviewer = JStr ''amy_01'', rating = JStr ''4.5'',
                      text' = JStr ''Nice card'' \<rparr> =
     Inr \<lparr> reviewer = JStr ''amy_01'', rating = JStr ''4.5'', text' = JStr ''Nice card'' \<rparr>"
  by (simp add: serialize_rating_simple_def serialize_rating_def coalesce_def serialize_simple_def
      clean_val_def clean_def trim_def is_space_def)

text \<open>
  C9, amended. When the payload is built, the network variant and the rendered-page
  variant, which test \<open>typeof r.rating === "number"\<close>, write a rating that is a number
  unchanged and every other rating (null, undefined, a value of another type) as 5.0. The
  simplest variant, which tests \<open>r.rating ?? 5.0\<close>, writes 5.0 for null and undefined
  only and every other rating, a number or not, unchanged. This holds of each record and of
  the whole list of a payload.
\<close>

theorem serialize_rating_default:
  "(v = JNum n \<longrightarrow> serialize_rating v = JNum n \<and> serialize_rating_simple v = JNum n) \<and>
   ((\<forall>m. v \<noteq> JNum m) \<longrightarrow> serialize_rating v = JNum (Finite 5)) \<and>
   (nullish v \<longrightarrow> serialize_rating_simple v = JNum (Finite 5)) \<and>
   (\<not> nullish v \<longrightarrow> serialize_rating_simple v = v) \<and>
   (serialize r = Inr r' \<longrightarrow> rating r' = serialize_rating (rating r)) \<and>
   (serialize_simple r = Inr r' \<longrightarrow> rating r' = serialize_rating_simple (rating r)) \<and>
   (serialize_all revs = Inr out \<longrightarrow>
      map rating out = map (\<lambda>r. serialize_rating (rating r)) revs) \<and>
   (serialize_all_simple revs = Inr out \<longrightarrow>
      map rating out = map (\<lambda>r. serialize_rating_simple (rating r)) revs)"
proof -
  have "(\<forall>m. v \<noteq> JNum m) \<longrightarrow> serialize_rating v = JNum (Finite 5)"
    by (cases v) (simp_all add: serialize_rating_def)
  moreover have "serialize r = Inr r' \<longrightarrow> rating r' = serialize_rating (rating r)"
    by (auto simp add: serialize_def split: sum.splits)
  moreover have "serialize_simple r = Inr r' \<longrightarrow> rating r' = serialize_rating_simple (rating r)"
    by (auto simp add: serialize_simple_def split: sum.splits)
  moreover have "serialize_all revs = Inr out \<longrightarrow>
      map rating out = map (\<lambda>r. serialize_rating (rating r)) revs"
    by (simp add: serialize_all_ratings)
  moreover have "serialize_all_simple revs = Inr out \<longrightarrow>
      map rating out = map (\<lambda>r. serialize_rating_simple (rating r)) revs"
    by (simp add: serialize_all_simple_ratings)
  ultimately show ?thesis
    by (simp add: serialize_rating_def serialize_rating_simple_def coalesce_def)
qed

theorem serialize_rating_default_witness:
  "serialize_rating (JNum (Finite 4.5)) = JNum (Finite 4.5) \<and>
   serialize_rating_simple (JNum (Finite 4.5)) = JNum (Finite 4.5) \<and>
   serialize_rating JNull = JNum (Finite 5) \<and>
   serialize_rating (JBool True) = JNum (Finite 5) \<and>
   serialize_rating_simple JUndefined = JNum (Finite 5) \<and>
   serialize_rating_simple (JBool True) = JBool True \<and>
   serialize \<lparr> reviewer = JStr ''amy_01'', rating = JNull, text' = JStr ''Nice  card'' \<rparr> =
     Inr \<lparr> reviewer = JStr ''amy_01'', rating = JNum (Finite 5), text' = JStr ''Nice card'' \<rparr> \<and>
   serialize_simple \<lparr> reviewer = JStr ''amy_01'', rating = JNull, text' = JStr ''Nice  card'' \<rparr> =
     Inr \<lparr> reviewer = JStr ''amy_01'', rating = JNum (Finite 5), text' = JStr ''Nice card'' \<rparr>"
proof -
  let ?r = "\<lparr> reviewer = JStr ''amy_01'', rating = JNull, text' = JStr ''Nice  card'' \<rparr>"
  have s: "serialize ?r =
     Inr \<lparr> reviewer = JStr ''amy_01'', rating = serialize_rating JNull,
           text' = JStr ''Nice card'' \<rparr>"
    by (simp add: serialize_def clean_val_def clean_def trim_def is_space_def)
  have t: "serialize_simple ?r =
     Inr \<lparr> reviewer = JStr ''amy_01'', rating = serialize_rating_simple JNull,
           text' = JStr ''Nice card'' \<rparr>"
    by (simp add: serialize_simple_def clean_val_def clean_def trim_def is_space_def)
  from serialize_rating_default[of "JNum (Finite 4.5)" "Finite 4.5"]
    serialize_rating_default[of JNull]
    serialize_rating_default[of "JBool True"]
    serialize_rating_default[of JUndefined]
    s t
  show ?thesis by simp
qed

subsection \<open>C10\<close>

text \<open>
  C10. On every value that is not null or undefined, so on every object and every array,
  the field normalizer returns, without an error, a record whose reviewer and text are
  strings. When the field resolves to a string, the result is that string cleaned, which is
  the words of that string (its maximal runs of characters that are not white space) in
  order, with one space between neighbours and none at the ends; otherwise it is the empty
  string, and so never null. Cleaning leaves both unchanged. The rating is null or a number
  that is not NaN.
\<close>

theorem normalizeReview_shape:
  assumes "\<not> nullish item"
  shows "\<exists>u t. normalizeReview item =
            Inr \<lparr> reviewer = JStr u, rating = rating_of item, text' = JStr t \<rparr> \<and>
          (\<forall>s. reviewer_of item = JStr s \<longrightarrow>
               u = clean s \<and> u = join_spaced (space_words s)) \<and>
          ((\<forall>s. reviewer_of item \<noteq> JStr s) \<longrightarrow> u = []) \<and>
          (\<forall>s. text_of item = JStr s \<longrightarrow>
               t = clean s \<and> t = join_spaced (space_words s)) \<and>
          ((\<forall>s. text_of item \<noteq> JStr s) \<longrightarrow> t = []) \<and>
          clean u = u \<and> clean t = t \<and>
          (rating_of item = JNull \<or> (\<exists>n. rating_of item = JNum n \<and> n \<noteq> NaN))"
proof -
  have a: "(\<forall>s. reviewer_of item \<noteq> JStr s) \<longrightarrow> clean (string_or_empty (reviewer_of item)) = []"
    by (cases "reviewer_of item") (simp_all add: string_or_empty_def clean_Nil)
  have b: "(\<forall>s. text_of item \<noteq> JStr s) \<longrightarrow> clean (string_or_empty (text_of item)) = []"
    by (cases "text_of item") (simp_all add: string_or_empty_def clean_Nil)
  have c: "\<forall>s. reviewer_of item = JStr s \<longrightarrow>
      clean (string_or_empty (reviewer_of item)) = clean s \<and>
      clean (string_or_empty (reviewer_of item)) = join_spaced (space_words s)"
    by (simp add: string_or_empty_def clean_words)
  have d: "\<forall>s. text_of item = JStr s \<longrightarrow>
      clean (string_or_empty (text_of item)) = clean s \<and>
      clean (string_or_empty (text_of item)) = join_spaced (space_words s)"
    by (simp add: string_or_empty_def clean_words)
  show ?thesis
    using assms a b c d rating_of_cases[of item]
    by (simp add: normalizeReview_def clean_clean clean_words[symmetric])
qed

theorem normalizeReview_shape_witness:
  "\<not> nullish padded \<and> normalizeReview padded = Inr padded_record \<and>
   \<not> nullish (JArr [alice]) \<and>
   normalizeReview (JArr [alice]) =
     Inr \<lparr> reviewer = JStr [], rating = JNull, text' = JStr [] \<rparr>"
proof -
  have o: "\<not> nullish padded" by (simp add: padded_def)
  have r: "rating_of padded = JNull"
    by (simp add: padded_def rating_of_def coalesce_def parseFloat_def is_space_def is_digit_def)
  have u: "reviewer_of padded = JStr ''  alice   99 ''"
    by (simp add: padded_def reviewer_of_def coalesce_def nested_def)
  have t: "text_of padded = JStr (CHR 0x09 # ''Great   seller'' @ [CHR 0x0A])"
    by (simp add: padded_def text_of_def coalesce_def nested_def)
  have wu: "join_spaced (space_words ''  alice   99 '') = ''alice 99''"
    by (simp add: is_space_def)
  have wt: "join_spaced (space_words (CHR 0x09 # ''Great   seller'' @ [CHR 0x0A])) = ''Great seller''"
    by (simp add: is_space_def)
  from normalizeReview_shape[OF o] r u t wu wt
  have 1: "normalizeReview padded = Inr padded_record"
    by (auto simp: padded_record_def)
  have ar: "rating_of (JArr [alice]) = JNull"
    by (simp add: rating_of_def coalesce_def)
  have au: "\<forall>s. reviewer_of (JArr [alice]) \<noteq> JStr s"
    by (simp add: reviewer_of_def coalesce_def nested_def)
  have at: "\<forall>s. text_of (JArr [alice]) \<noteq> JStr s"
    by (simp add: text_of_def coalesce_def nested_def)
  from normalizeReview_shape[of "JArr [alice]"] ar au at
  have 2: "normalizeReview (JArr [alice]) =
     Inr \<lparr> reviewer = JStr [], rating = JNull, text' = JStr [] \<rparr>"
    by auto
  from o 1 2 show ?thesis by simp
qed

end
